theory Spec2Isabelle
  imports Complex_Main
begin

section \<open>The testimonials carousel of \<open>src/js/performance.js\<close>\<close>

text \<open>
  The carousel is the second module of \<open>src/js/performance.js\<close> (the IIFE
  \<open>testimonialCarousel\<close>). Its two module-level objects \<open>state\<close> and \<open>elements\<close>, the
  part of the document it reads and writes, the browser's timer table and the clock are
  put together in one record \<open>world\<close>; every function of the module becomes a function on
  worlds. A function that can raise returns an \<open>outcome\<close>: \<open>Inr w\<close> when it returns
  normally in world \<open>w\<close>, \<open>Inl (e, w)\<close> when it throws \<open>e\<close> having already changed the
  world to \<open>w\<close> (JavaScript does not roll back the writes made before a throw).

  Numbers that the code uses as indices, counts and millisecond times are \<open>int\<close>. A touch
  coordinate is the real number its double denotes. What the engine computes from such
  numbers in double arithmetic (a difference, a product, a quotient, \<open>Math.atan2\<close>) is not
  computed here on the reals: the engine's operations are part of the world, as the record
  \<open>arith\<close>, and the handlers call them.
\<close>

subsection \<open>Configuration constants\<close>

definition AUTO_PLAY_INTERVAL :: int where "AUTO_PLAY_INTERVAL = 5000"
definition TRANSITION_DURATION :: int where "TRANSITION_DURATION = 300"
definition SWIPE_THRESHOLD :: real where "SWIPE_THRESHOLD = 50"
definition TOUCH_ANGLE_THRESHOLD :: real where "TOUCH_ANGLE_THRESHOLD = 30"
definition KEYBOARD_REPEAT_DELAY :: int where "KEYBOARD_REPEAT_DELAY = 300"

subsection \<open>Data\<close>

text \<open>A testimonial card of the static page: the three markings \<open>updateCarousel\<close> writes
  and the text of its \<open>.testimonial-card__name\<close> child, if it has one.\<close>

record card =
  cls_active :: bool
  aria_hidden :: "string option"
  tabindex :: "string option"
  customer :: "string option"

text \<open>An indicator dot: the \<open>testimonials__indicator--active\<close> class, \<open>aria-selected\<close>
  and \<open>dataset.index\<close>.\<close>

record indicator =
  ind_active :: bool
  aria_selected :: string
  data_index :: int

datatype error = TypeError

text \<open>What a scheduled callback does: the auto-play closure, the closure of
  \<open>updateCarousel\<close> that clears \<open>isTransitioning\<close>, the closure of the resize listener.\<close>

datatype task = AutoAdvance | EndTransition | ResizeResync

record timer =
  tid :: nat
  task :: task
  due :: int
  every :: "int option"

datatype log = LogInfo int | LogError error

record touch =
  clientX :: real
  clientY :: real

text \<open>The double arithmetic of the JavaScript engine, as far as the module uses it on touch
  coordinates: \<open>a - b\<close>, \<open>a * b\<close>, \<open>a / b\<close>, \<open>Math.atan2(y, x)\<close> and \<open>Math.PI\<close>. Each
  operation gives the double the engine produces, rounding included; ECMAScript leaves the
  precision of \<open>Math.atan2\<close> to the implementation.\<close>

record arith =
  num_sub :: "real \<Rightarrow> real \<Rightarrow> real"
  num_mul :: "real \<Rightarrow> real \<Rightarrow> real"
  num_div :: "real \<Rightarrow> real \<Rightarrow> real"
  math_atan2 :: "real \<Rightarrow> real \<Rightarrow> real"
  math_PI :: real

record world =
  \<comment> \<open>the object \<open>state\<close>\<close>
  currentIndex :: int
  totalCards :: int
  isAutoPlaying :: bool
  autoPlayTimer :: "nat option"
  lastKeyPressTime :: int
  touchStartX :: real
  touchStartY :: real
  touchStartTime :: int
  isTransitioning :: bool
  \<comment> \<open>the object \<open>elements\<close>: a reference is \<open>null\<close> (\<open>False\<close>, \<open>None\<close>) or bound;
     \<open>el_cards\<close> tells whether \<open>elements.cards\<close> holds the cards of the grid or is still \<open>[]\<close>;
     a button is its \<open>disabled\<close> property, the live region its text\<close>
  el_container :: bool
  el_grid :: bool
  el_cards :: bool
  prevButton :: "bool option"
  nextButton :: "bool option"
  indicators :: "indicator list option"
  liveRegion :: "string option"
  \<comment> \<open>the document\<close>
  has_testimonials :: bool
  has_grid :: bool
  has_inner :: bool
  cards :: "card list"
  controls_attached :: bool
  indicators_attached :: bool
  live_attached :: bool
  styles_injected :: bool
  \<comment> \<open>the browser: timer table, clock, the \<open>resizeTimer\<close> variable, console, listeners,
     the engine's arithmetic\<close>
  timers :: "timer list"
  nextTimerId :: nat
  now :: int
  resizeTimer :: "nat option"
  console :: "log list"
  listening :: bool
  engine :: arith

type_synonym outcome = "(error \<times> world) + world"

text \<open>The world an outcome leaves behind, thrown or not.\<close>

fun after :: "outcome \<Rightarrow> world" where
  "after (Inl (e, w)) = w"
| "after (Inr w) = w"

subsection \<open>Timers\<close>

text \<open>\<open>setInterval\<close> and \<open>setTimeout\<close> hand out the next handle of the table and append the
  timer; \<open>clearInterval\<close>/\<open>clearTimeout\<close> remove the timer with that handle and ignore
  \<open>null\<close>. A handle is truthy when it is not \<open>null\<close> and not \<open>0\<close>.\<close>

definition setInterval :: "task \<Rightarrow> int \<Rightarrow> world \<Rightarrow> nat \<times> world" where
  "setInterval f ms w =
     (nextTimerId w,
      w\<lparr>timers := timers w @ [\<lparr>tid = nextTimerId w, task = f, due = now w + ms, every = Some ms\<rparr>],
        nextTimerId := nextTimerId w + 1\<rparr>)"

definition setTimeout :: "task \<Rightarrow> int \<Rightarrow> world \<Rightarrow> nat \<times> world" where
  "setTimeout f ms w =
     (nextTimerId w,
      w\<lparr>timers := timers w @ [\<lparr>tid = nextTimerId w, task = f, due = now w + ms, every = None\<rparr>],
        nextTimerId := nextTimerId w + 1\<rparr>)"

definition clearTimer :: "nat option \<Rightarrow> world \<Rightarrow> world" where
  "clearTimer h w =
     (case h of None \<Rightarrow> w
      | Some i \<Rightarrow> w\<lparr>timers := filter (\<lambda>t. tid t \<noteq> i) (timers w)\<rparr>)"

definition truthy :: "nat option \<Rightarrow> bool" where
  "truthy h = (case h of None \<Rightarrow> False | Some i \<Rightarrow> i \<noteq> 0)"

subsection \<open>Rendering\<close>

fun mark_card :: "int \<Rightarrow> int \<Rightarrow> card \<Rightarrow> card" where
  "mark_card index i c =
     (if i = index
      then c\<lparr>cls_active := True, aria_hidden := None, tabindex := Some ''0''\<rparr>
      else c\<lparr>cls_active := False, aria_hidden := Some ''true'', tabindex := Some ''-1''\<rparr>)"

text \<open>\<open>elements.cards.forEach((card, i) => ...)\<close>, with the position \<open>i\<close> as a counter.\<close>

fun mark_cards :: "int \<Rightarrow> int \<Rightarrow> card list \<Rightarrow> card list" where
  "mark_cards index i [] = []"
| "mark_cards index i (c # cs) = mark_card index i c # mark_cards index (i + 1) cs"

fun mark_indicator :: "int \<Rightarrow> int \<Rightarrow> indicator \<Rightarrow> indicator" where
  "mark_indicator index i d =
     (if i = index
      then d\<lparr>ind_active := True, aria_selected := ''true''\<rparr>
      else d\<lparr>ind_active := False, aria_selected := ''false''\<rparr>)"

fun mark_indicators :: "int \<Rightarrow> int \<Rightarrow> indicator list \<Rightarrow> indicator list" where
  "mark_indicators index i [] = []"
| "mark_indicators index i (d # ds) = mark_indicator index i d # mark_indicators index (i + 1) ds"

text \<open>Decimal numerals of the template string.\<close>

function show_nat :: "nat \<Rightarrow> string" where
  "show_nat n =
     (if n < 10 then [char_of (48 + n)]
      else show_nat (n div 10) @ [char_of (48 + n mod 10)])"
  by pat_completeness auto
termination
  by (relation "measure id") auto

declare show_nat.simps [simp del]

definition show_int :: "int \<Rightarrow> string" where
  "show_int i = (if i < 0 then ''-'' @ show_nat (nat (- i)) else show_nat (nat i))"

text \<open>\<open>announceCurrentTestimonial\<close>: reading \<open>elements.cards[state.currentIndex]\<close> outside
  the array gives \<open>undefined\<close>, whose \<open>querySelector\<close> throws; so does writing the text of a
  \<open>null\<close> live region. An absent or empty name is replaced by \<open>Customer\<close>.\<close>

definition announceCurrentTestimonial :: "world \<Rightarrow> outcome" where
  "announceCurrentTestimonial w =
     (if \<not> (el_cards w \<and> 0 \<le> currentIndex w \<and> currentIndex w < int (length (cards w)))
      then Inl (TypeError, w)
      else
        let currentCard = cards w ! nat (currentIndex w);
            customerName = (case customer currentCard of
                              None \<Rightarrow> ''Customer''
                            | Some n \<Rightarrow> if n = [] then ''Customer'' else n)
        in case liveRegion w of
             None \<Rightarrow> Inl (TypeError, w)
           | Some _ \<Rightarrow>
               Inr (w\<lparr>liveRegion := Some (''Showing testimonial '' @ show_int (currentIndex w + 1)
                                           @ '' of '' @ show_int (totalCards w)
                                           @ '' from '' @ customerName)\<rparr>))"

text \<open>Sequencing of steps that may throw: a throw ends the sequence.\<close>

definition andThen :: "outcome \<Rightarrow> (world \<Rightarrow> outcome) \<Rightarrow> outcome" where
  "andThen r f = (case r of Inl x \<Rightarrow> Inl x | Inr w \<Rightarrow> f w)"

text \<open>The sections of \<open>updateCarousel\<close>, in the order of the source: the two state writes
  and the cards, the indicators (a \<open>null\<close> \<open>elements.indicators\<close> throws), the two buttons
  (a \<open>null\<close> button throws), the announcement, the timeout that ends the transition.\<close>

definition updateCards :: "int \<Rightarrow> world \<Rightarrow> world" where
  "updateCards index w =
     w\<lparr>isTransitioning := True, currentIndex := index,
       cards := (if el_cards w then mark_cards index 0 (cards w) else cards w)\<rparr>"

definition updateIndicators :: "int \<Rightarrow> world \<Rightarrow> outcome" where
  "updateIndicators index w =
     (case indicators w of
        None \<Rightarrow> Inl (TypeError, w)
      | Some ds \<Rightarrow> Inr (w\<lparr>indicators := Some (mark_indicators index 0 ds)\<rparr>))"

definition updateButtons :: "world \<Rightarrow> outcome" where
  "updateButtons w =
     (case prevButton w of
        None \<Rightarrow> Inl (TypeError, w)
      | Some _ \<Rightarrow>
          (case nextButton w of
             None \<Rightarrow> Inl (TypeError, w\<lparr>prevButton := Some False\<rparr>)
           | Some _ \<Rightarrow> Inr (w\<lparr>prevButton := Some False, nextButton := Some False\<rparr>)))"

definition scheduleEndTransition :: "bool \<Rightarrow> world \<Rightarrow> outcome" where
  "scheduleEndTransition animate w =
     Inr (snd (setTimeout EndTransition (if animate then TRANSITION_DURATION else 0) w))"

definition updateCarousel :: "int \<Rightarrow> bool \<Rightarrow> world \<Rightarrow> outcome" where
  "updateCarousel index animate w =
     andThen (andThen (andThen (updateIndicators index (updateCards index w))
                updateButtons)
                announceCurrentTestimonial)
                (scheduleEndTransition animate)"

subsection \<open>Auto-play\<close>

definition startAutoPlay :: "world \<Rightarrow> world" where
  "startAutoPlay w =
     (if isAutoPlaying w then w
      else let (h, w') = setInterval AutoAdvance AUTO_PLAY_INTERVAL (w\<lparr>isAutoPlaying := True\<rparr>)
           in w'\<lparr>autoPlayTimer := Some h\<rparr>)"

definition pauseAutoPlay :: "world \<Rightarrow> world" where
  "pauseAutoPlay w =
     (if \<not> isAutoPlaying w then w
      else (clearTimer (autoPlayTimer w) w)\<lparr>autoPlayTimer := None\<rparr>)"

definition resumeAutoPlay :: "world \<Rightarrow> world" where
  "resumeAutoPlay w =
     (if truthy (autoPlayTimer w) then w
      else let (h, w') = setInterval AutoAdvance AUTO_PLAY_INTERVAL w
           in w'\<lparr>autoPlayTimer := Some h\<rparr>)"

definition resetAutoPlay :: "world \<Rightarrow> world" where
  "resetAutoPlay w = resumeAutoPlay (pauseAutoPlay w)"

subsection \<open>Navigation\<close>

definition navigateTo :: "int \<Rightarrow> world \<Rightarrow> outcome" where
  "navigateTo index w =
     (if isTransitioning w then Inr w
      else
        let newIndex = (if index < 0 then totalCards w - 1
                        else if index \<ge> totalCards w then 0
                        else index)
        in if newIndex = currentIndex w then Inr w
           else andThen (updateCarousel newIndex True w) (\<lambda>w'. Inr (resetAutoPlay w')))"

subsection \<open>Event handlers\<close>

definition handlePrevClick :: "world \<Rightarrow> outcome" where
  "handlePrevClick w = navigateTo (currentIndex w - 1) w"

definition handleNextClick :: "world \<Rightarrow> outcome" where
  "handleNextClick w = navigateTo (currentIndex w + 1) w"

text \<open>A click in the indicator bar: \<open>hit\<close> is the position of the indicator that
  \<open>closest('.testimonials__indicator')\<close> finds, \<open>None\<close> when the click missed every dot. The
  index is read back from \<open>dataset.index\<close>, which \<open>createIndicators\<close> wrote as a number, so
  \<open>parseInt\<close> never yields \<open>NaN\<close>.\<close>

definition handleIndicatorClick :: "nat option \<Rightarrow> world \<Rightarrow> outcome" where
  "handleIndicatorClick hit w =
     (case hit of
        None \<Rightarrow> Inr w
      | Some k \<Rightarrow>
          (case indicators w of
             None \<Rightarrow> Inr w
           | Some ds \<Rightarrow> if k < length ds then navigateTo (data_index (ds ! k)) w else Inr w))"

text \<open>\<open>handleKeyDown\<close>: \<open>Date.now()\<close> is read once; \<open>lastKeyPressTime\<close> is written only
  after a handled key, and only if the navigation did not throw.\<close>

definition handleKeyDown :: "string \<Rightarrow> world \<Rightarrow> outcome" where
  "handleKeyDown key w =
     (if now w - lastKeyPressTime w < KEYBOARD_REPEAT_DELAY then Inr w
      else
        let stamp = (\<lambda>w'. Inr (w'\<lparr>lastKeyPressTime := now w\<rparr>))
        in if key = ''ArrowLeft'' then andThen (navigateTo (currentIndex w - 1) w) stamp
           else if key = ''ArrowRight'' then andThen (navigateTo (currentIndex w + 1) w) stamp
           else if key = ''Home'' then andThen (navigateTo 0 w) stamp
           else if key = ''End'' then andThen (navigateTo (totalCards w - 1) w) stamp
           else Inr w)"

definition handleTouchStart :: "touch list \<Rightarrow> world \<Rightarrow> world" where
  "handleTouchStart touches w =
     (if length touches \<noteq> 1 then w
      else w\<lparr>touchStartX := clientX (hd touches),
             touchStartY := clientY (hd touches),
             touchStartTime := now w\<rparr>)"

text \<open>\<open>handleTouchMove\<close> writes nothing; its result tells whether it calls
  \<open>event.preventDefault()\<close>. \<open>Math.abs\<close> and the comparisons are exact on doubles.\<close>

definition handleTouchMove :: "touch list \<Rightarrow> world \<Rightarrow> bool" where
  "handleTouchMove touches w =
     (if length touches \<noteq> 1 then False
      else
        let deltaX = \<bar>num_sub (engine w) (clientX (hd touches)) (touchStartX w)\<bar>;
            deltaY = \<bar>num_sub (engine w) (clientY (hd touches)) (touchStartY w)\<bar>
        in deltaX > deltaY \<and> deltaX > 10)"

text \<open>The angle of \<open>handleTouchEnd\<close>,
  \<open>Math.abs(Math.atan2(deltaY, deltaX) * 180 / Math.PI)\<close>, and its test
  \<open>angle < CONFIG.TOUCH_ANGLE_THRESHOLD || angle > (180 - CONFIG.TOUCH_ANGLE_THRESHOLD)\<close>,
  every operation being the engine's.\<close>

definition swipeAngle :: "arith \<Rightarrow> real \<Rightarrow> real \<Rightarrow> real" where
  "swipeAngle e deltaX deltaY =
     \<bar>num_div e (num_mul e (math_atan2 e deltaY deltaX) 180) (math_PI e)\<bar>"

definition isHorizontalSwipe :: "arith \<Rightarrow> real \<Rightarrow> bool" where
  "isHorizontalSwipe e angle =
     (angle < TOUCH_ANGLE_THRESHOLD \<or> angle > num_sub e 180 TOUCH_ANGLE_THRESHOLD)"

text \<open>The test of \<open>handleTouchEnd\<close> that lets a swipe through, on the angle and the
  horizontal displacement the engine computed.\<close>

definition swipeAccepted :: "arith \<Rightarrow> real \<Rightarrow> real \<Rightarrow> int \<Rightarrow> bool" where
  "swipeAccepted e angle deltaX deltaTime =
     (isHorizontalSwipe e angle \<and> \<bar>deltaX\<bar> > SWIPE_THRESHOLD \<and> deltaTime < 500)"

text \<open>\<open>handleTouchEnd\<close>: the argument is \<open>event.changedTouches[0]\<close>, which a \<open>touchend\<close>
  event always has. \<open>!state.touchStartX\<close> holds when the stored coordinate is \<open>0\<close>. The two
  displacements are the engine's differences; the elapsed time is a difference of whole
  milliseconds. The touch state is reset only if the navigation did not throw.\<close>

definition handleTouchEnd :: "touch \<Rightarrow> world \<Rightarrow> outcome" where
  "handleTouchEnd t w =
     (if touchStartX w = 0 then Inr w
      else
        let deltaX = num_sub (engine w) (clientX t) (touchStartX w);
            deltaY = num_sub (engine w) (clientY t) (touchStartY w);
            deltaTime = now w - touchStartTime w;
            angle = swipeAngle (engine w) deltaX deltaY;
            reset = (\<lambda>w'. Inr (w'\<lparr>touchStartX := 0, touchStartY := 0, touchStartTime := 0\<rparr>))
        in if swipeAccepted (engine w) angle deltaX deltaTime
           then (if deltaX > 0 then andThen (navigateTo (currentIndex w - 1) w) reset
                 else andThen (navigateTo (currentIndex w + 1) w) reset)
           else reset w)"

definition handleVisibilityChange :: "bool \<Rightarrow> world \<Rightarrow> world" where
  "handleVisibilityChange hidden w = (if hidden then pauseAutoPlay w else resumeAutoPlay w)"

text \<open>The resize listener: \<open>clearTimeout(resizeTimer)\<close>, then a fresh 150 ms timeout.\<close>

definition handleResize :: "world \<Rightarrow> world" where
  "handleResize w =
     (let (h, w') = setTimeout ResizeResync 150 (clearTimer (resizeTimer w) w)
      in w'\<lparr>resizeTimer := Some h\<rparr>)"

subsection \<open>Initialisation\<close>

definition injectCarouselStyles :: "world \<Rightarrow> world" where
  "injectCarouselStyles w = (if styles_injected w then w else w\<lparr>styles_injected := True\<rparr>)"

text \<open>\<open>createCarouselControls\<close> creates both buttons, then looks up
  \<open>.testimonials__container\<close> inside the container and appends to it: when that element is
  missing, \<open>appendChild\<close> is called on \<open>null\<close> and throws, with the buttons created but
  nothing attached.\<close>

definition createCarouselControls :: "world \<Rightarrow> outcome" where
  "createCarouselControls w =
     (let w1 = w\<lparr>prevButton := Some False, nextButton := Some False\<rparr>
      in if \<not> el_container w1 \<or> \<not> has_inner w1 then Inl (TypeError, w1)
         else Inr (injectCarouselStyles (w1\<lparr>controls_attached := True\<rparr>)))"

definition createIndicators :: "world \<Rightarrow> outcome" where
  "createIndicators w =
     (let w1 = w\<lparr>indicators :=
                   Some (map (\<lambda>i. \<lparr>ind_active = False,
                                   aria_selected = (if i = 0 then ''true'' else ''false''),
                                   data_index = int i\<rparr>)
                             [0 ..< nat (totalCards w)])\<rparr>
      in if \<not> el_container w1 \<or> \<not> has_inner w1 then Inl (TypeError, w1)
         else Inr (w1\<lparr>indicators_attached := True\<rparr>))"

definition createLiveRegion :: "world \<Rightarrow> outcome" where
  "createLiveRegion w =
     (let w1 = w\<lparr>liveRegion := Some []\<rparr>
      in if \<not> el_container w1 then Inl (TypeError, w1)
         else Inr (w1\<lparr>live_attached := True\<rparr>))"

text \<open>\<open>attachEventListeners\<close> is called once, by \<open>init\<close>, after the three functions above
  returned, so the five elements it registers on exist. The listeners are one flag; with an
  element missing the first \<open>addEventListener\<close> on \<open>null\<close> throws, recorded here with no
  listener registered.\<close>

definition attachEventListeners :: "world \<Rightarrow> outcome" where
  "attachEventListeners w =
     (if prevButton w = None \<or> nextButton w = None \<or> indicators w = None
         \<or> \<not> el_container w \<or> \<not> el_grid w
      then Inl (TypeError, w)
      else Inr (w\<lparr>listening := True\<rparr>))"

text \<open>The statements of \<open>init\<close> that follow its early returns, in order: the controls,
  the indicators, the live region, the listeners, the first card made active without
  animation, auto-play, the \<open>console.info\<close> line.\<close>

definition activate :: "world \<Rightarrow> outcome" where
  "activate w =
     andThen (andThen (andThen (andThen (andThen (andThen (createCarouselControls w)
       createIndicators)
       createLiveRegion)
       attachEventListeners)
       (updateCarousel 0 False))
       (\<lambda>w'. Inr (startAutoPlay w')))
       (\<lambda>w'. Inr (w'\<lparr>console := console w' @ [LogInfo (totalCards w')]\<rparr>))"

text \<open>\<open>init\<close>: the three early returns, then the rest of the \<open>try\<close> block; the
  \<open>catch\<close> logs the error and returns, with whatever was written before the throw.\<close>

definition init :: "world \<Rightarrow> world" where
  "init w =
     (let w1 = w\<lparr>el_container := has_testimonials w\<rparr>
      in if \<not> el_container w1 then w1
         else
           let w2 = w1\<lparr>el_grid := has_grid w1\<rparr>
           in if \<not> el_grid w2 then w2
              else
                let w3 = w2\<lparr>el_cards := True, totalCards := int (length (cards w2))\<rparr>
                in if totalCards w3 \<le> 1 then w3
                   else (case activate w3 of
                           Inl (e, w') \<Rightarrow> w'\<lparr>console := console w' @ [LogError e]\<rparr>
                         | Inr w' \<Rightarrow> w'))"

subsection \<open>The event loop\<close>

datatype dom_event =
    PrevClick | NextClick | IndicatorClick "nat option" | KeyDown string
  | TouchStart "touch list" | TouchMove "touch list" | TouchEnd touch
  | MouseEnter | MouseLeave | FocusIn | FocusOut | VisibilityChange bool | Resize

datatype event = Dom dom_event | TimerFire nat | Elapse nat

fun deliver :: "dom_event \<Rightarrow> world \<Rightarrow> outcome" where
  "deliver PrevClick w = handlePrevClick w"
| "deliver NextClick w = handleNextClick w"
| "deliver (IndicatorClick hit) w = handleIndicatorClick hit w"
| "deliver (KeyDown key) w = handleKeyDown key w"
| "deliver (TouchStart ts) w = Inr (handleTouchStart ts w)"
| "deliver (TouchMove ts) w = Inr w"
| "deliver (TouchEnd t) w = handleTouchEnd t w"
| "deliver MouseEnter w = Inr (pauseAutoPlay w)"
| "deliver MouseLeave w = Inr (resumeAutoPlay w)"
| "deliver FocusIn w = Inr (pauseAutoPlay w)"
| "deliver FocusOut w = Inr (resumeAutoPlay w)"
| "deliver (VisibilityChange hidden) w = Inr (handleVisibilityChange hidden w)"
| "deliver Resize w = Inr (handleResize w)"

fun runTask :: "task \<Rightarrow> world \<Rightarrow> outcome" where
  "runTask AutoAdvance w = navigateTo (currentIndex w + 1) w"
| "runTask EndTransition w = Inr (w\<lparr>isTransitioning := False\<rparr>)"
| "runTask ResizeResync w = updateCarousel (currentIndex w) False w"

definition reschedule :: "nat \<Rightarrow> int \<Rightarrow> world \<Rightarrow> world" where
  "reschedule i ms w =
     w\<lparr>timers := map (\<lambda>u. if tid u = i then u\<lparr>due := now w + ms\<rparr> else u) (timers w)\<rparr>"

text \<open>The browser runs a timer no earlier than it is due. A timeout leaves the table before
  its callback runs; an interval stays, unless its callback cleared it, and is due again one
  period later.\<close>

definition fireTimer :: "nat \<Rightarrow> world \<Rightarrow> outcome" where
  "fireTimer i w =
     (case find (\<lambda>t. tid t = i) (timers w) of
        None \<Rightarrow> Inr w
      | Some t \<Rightarrow>
          if now w < due t then Inr w
          else (case every t of
                  None \<Rightarrow> runTask (task t) (clearTimer (Some i) w)
                | Some ms \<Rightarrow>
                    (case runTask (task t) w of
                       Inl (e, w') \<Rightarrow> Inl (e, reschedule i ms w')
                     | Inr w' \<Rightarrow> Inr (reschedule i ms w'))))"

text \<open>One turn of the event loop: a DOM event reaches the module only once its listeners
  are registered; the clock only moves forward.\<close>

fun dispatch :: "event \<Rightarrow> world \<Rightarrow> outcome" where
  "dispatch (Dom e) w = (if listening w then deliver e w else Inr w)"
| "dispatch (TimerFire i) w = fireTimer i w"
| "dispatch (Elapse d) w = Inr (w\<lparr>now := now w + int d\<rparr>)"

text \<open>An uncaught error in a listener or callback ends that turn; the page goes on in the
  world the turn left.\<close>

fun run :: "event list \<Rightarrow> world \<Rightarrow> world" where
  "run [] w = w"
| "run (e # es) w = run es (after (dispatch e w))"

text \<open>The events that begin a touch gesture.\<close>

fun starts_touch :: "event \<Rightarrow> bool" where
  "starts_touch (Dom (TouchStart ts)) = True"
| "starts_touch e = False"

text \<open>The module as loaded, before \<open>init\<close>: \<open>state\<close> and \<open>elements\<close> at their literals,
  nothing created, no timer of the module, no listener. The page itself, the clock, the
  engine's arithmetic and the next timer handle (positive, as in every browser) are
  arbitrary.\<close>

definition fresh :: "world \<Rightarrow> bool" where
  "fresh w \<longleftrightarrow>
     currentIndex w = 0 \<and> totalCards w = 0 \<and> \<not> isAutoPlaying w \<and> autoPlayTimer w = None
     \<and> lastKeyPressTime w = 0 \<and> touchStartX w = 0 \<and> touchStartY w = 0
     \<and> touchStartTime w = 0 \<and> \<not> isTransitioning w
     \<and> \<not> el_container w \<and> \<not> el_grid w \<and> \<not> el_cards w
     \<and> prevButton w = None \<and> nextButton w = None \<and> indicators w = None
     \<and> liveRegion w = None
     \<and> \<not> controls_attached w \<and> \<not> indicators_attached w \<and> \<not> live_attached w
     \<and> timers w = [] \<and> 0 < nextTimerId w \<and> resizeTimer w = None \<and> \<not> listening w"

text \<open>The worlds the page can be in after \<open>init\<close> ran on the fresh world \<open>w0\<close>.\<close>

inductive reaches :: "world \<Rightarrow> world \<Rightarrow> bool" for w0 :: world where
  reaches_init: "reaches w0 (init w0)"
| reaches_step: "reaches w0 w \<Longrightarrow> reaches w0 (after (dispatch e w))"

subsection \<open>Notions used to state the properties\<close>

text \<open>JavaScript's \<open>%\<close> takes the sign of the dividend. \<open>spec_index\<close> is the index formula
  of the specification, \<open>((i % N) + N) % N\<close>, written with it.\<close>

definition js_rem :: "int \<Rightarrow> int \<Rightarrow> int" where
  "js_rem a n = sgn a * (\<bar>a\<bar> mod \<bar>n\<bar>)"

definition spec_index :: "int \<Rightarrow> int \<Rightarrow> int" where
  "spec_index N i = js_rem (js_rem i N + N) N"

text \<open>The active marker of a card, and the marking of every other card.\<close>

definition is_active :: "card \<Rightarrow> bool" where
  "is_active c \<longleftrightarrow> cls_active c \<and> aria_hidden c = None \<and> tabindex c = Some ''0''"

definition is_hidden :: "card \<Rightarrow> bool" where
  "is_hidden c \<longleftrightarrow> \<not> cls_active c \<and> aria_hidden c = Some ''true'' \<and> tabindex c = Some ''-1''"

text \<open>The carousel is mounted: \<open>init\<close> bound the cards and created the controls, so that
  no reference \<open>updateCarousel\<close> follows is \<open>null\<close>.\<close>

definition mounted :: "world \<Rightarrow> bool" where
  "mounted w \<longleftrightarrow>
     el_cards w \<and> totalCards w = int (length (cards w))
     \<and> indicators w \<noteq> None \<and> prevButton w \<noteq> None \<and> nextButton w \<noteq> None
     \<and> liveRegion w \<noteq> None"

text \<open>The cards show the current index: the index is in range and every card carries
  exactly the marking \<open>updateCarousel\<close> gives it for that index.\<close>

definition rendered :: "world \<Rightarrow> bool" where
  "rendered w \<longleftrightarrow>
     mounted w \<and> 2 \<le> totalCards w
     \<and> 0 \<le> currentIndex w \<and> currentIndex w < totalCards w
     \<and> cards w = mark_cards (currentIndex w) 0 (cards w)"

text \<open>The auto-play timers of the table, and the table being in order: handles are
  positive, below the next handle and distinct; the intervals are the auto-play timers
  (\<open>setInterval\<close> is called with no other callback); the only auto-play timer is the one
  \<open>state.autoPlayTimer\<close> holds, and it is held only once auto-play was started; the handle
  in \<open>resizeTimer\<close> was handed out and names no timer but a resize timeout.\<close>

definition auto_timers :: "world \<Rightarrow> timer list" where
  "auto_timers w = filter (\<lambda>t. task t = AutoAdvance) (timers w)"

definition timers_ok :: "world \<Rightarrow> bool" where
  "timers_ok w \<longleftrightarrow>
     0 < nextTimerId w
     \<and> (\<forall>t \<in> set (timers w). 0 < tid t \<and> tid t < nextTimerId w)
     \<and> distinct (map tid (timers w))
     \<and> (\<forall>t \<in> set (timers w). task t = AutoAdvance \<longleftrightarrow> every t \<noteq> None)
     \<and> (autoPlayTimer w \<noteq> None \<longrightarrow> isAutoPlaying w)
     \<and> map tid (auto_timers w) = (case autoPlayTimer w of None \<Rightarrow> [] | Some h \<Rightarrow> [h])
     \<and> (case resizeTimer w of
           None \<Rightarrow> True
         | Some h \<Rightarrow> h < nextTimerId w
                     \<and> (\<forall>t \<in> set (timers w). tid t = h \<longrightarrow> task t = ResizeResync))"

text \<open>The carousel in working order: rendered, its timer table in order, auto-play
  started.\<close>

definition healthy :: "world \<Rightarrow> bool" where
  "healthy w \<longleftrightarrow> rendered w \<and> timers_ok w \<and> isAutoPlaying w"

text \<open>Everything of the world that is a node of the document or of a subtree the module
  built: a DOM mutation changes this tuple.\<close>

definition document_of ::
  "world \<Rightarrow> (bool \<times> bool \<times> bool \<times> card list) \<times> (bool \<times> bool \<times> bool \<times> bool)
            \<times> (bool option \<times> bool option \<times> indicator list option \<times> string option)" where
  "document_of w =
     ((has_testimonials w, has_grid w, has_inner w, cards w),
      (controls_attached w, indicators_attached w, live_attached w, styles_injected w),
      (prevButton w, nextButton w, indicators w, liveRegion w))"

subsection \<open>Sample pages\<close>

text \<open>An engine that computes without rounding: the operations of the reals, and
  \<open>Math.atan2\<close> by its quadrants, in radians. On whole pixels a binary64 engine computes the
  same differences, and the same angle \<open>0\<close> for a level swipe to the right.\<close>

definition atan2 :: "real \<Rightarrow> real \<Rightarrow> real" where
  "atan2 y x =
     (if x > 0 then arctan (y / x)
      else if x < 0 then (if y \<ge> 0 then arctan (y / x) + pi else arctan (y / x) - pi)
      else if y > 0 then pi / 2
      else if y < 0 then - (pi / 2)
      else 0)"

definition exact_arith :: arith where
  "exact_arith = \<lparr>num_sub = (-), num_mul = (*), num_div = (/), math_atan2 = atan2,
                   math_PI = pi\<rparr>"

declare exact_arith_def [code del]

text \<open>A page with three testimonials, as loaded at clock \<open>1000\<close>; the third card already
  carries the active class in the markup and the second has no name element.\<close>

definition plain_card :: card where
  "plain_card = \<lparr>cls_active = False, aria_hidden = None, tabindex = None,
                  customer = Some ''Ann''\<rparr>"

definition page3 :: world where
  "page3 =
     \<lparr>currentIndex = 0, totalCards = 0, isAutoPlaying = False, autoPlayTimer = None,
      lastKeyPressTime = 0, touchStartX = 0, touchStartY = 0, touchStartTime = 0,
      isTransitioning = False, el_container = False, el_grid = False, el_cards = False,
      prevButton = None, nextButton = None, indicators = None, liveRegion = None,
      has_testimonials = True, has_grid = True, has_inner = True,
      cards = [plain_card, plain_card\<lparr>customer := None\<rparr>, plain_card\<lparr>cls_active := True\<rparr>],
      controls_attached = False, indicators_attached = False, live_attached = False,
      styles_injected = False, timers = [], nextTimerId = 1, now = 1000, resizeTimer = None,
      console = [], listening = False, engine = exact_arith\<rparr>"

text \<open>A page with three unmarked cards and without the \<open>.testimonials__container\<close>
  element that the controls are appended to.\<close>

definition bare_page :: world where
  "bare_page = page3\<lparr>has_inner := False, cards := [plain_card, plain_card, plain_card]\<rparr>"

text \<open>The carousel right after \<open>init\<close> (the zero-delay timeout that ends the first
  transition has not run yet), and the carousel at rest on the last card: the first
  transition ended, then a click on "previous" and the end of that transition.\<close>

definition started :: world where
  "started = init page3"

definition settled2 :: world where
  "settled2 = run [TimerFire 1, Dom PrevClick, Elapse 300, TimerFire 3] started"

text \<open>A finger down on the resting carousel at \<open>(200, 100)\<close>, 200 ms ago; the same
  during the transition that a click on "next" started; and a finger down at the left
  edge of the viewport, where \<open>clientX\<close> is \<open>0\<close>, 200 ms ago.\<close>

definition swipe_start :: world where
  "swipe_start = run [Dom (TouchStart [\<lparr>clientX = 200, clientY = 100\<rparr>]), Elapse 200] settled2"

definition swipe_in_transition :: world where
  "swipe_in_transition =
     run [Dom NextClick, Dom (TouchStart [\<lparr>clientX = 200, clientY = 100\<rparr>]), Elapse 200] settled2"

definition swipe_from_edge :: world where
  "swipe_from_edge = run [Dom (TouchStart [\<lparr>clientX = 0, clientY = 100\<rparr>]), Elapse 200] settled2"

section \<open>Properties\<close>

subsection \<open>Basic facts\<close>

lemma length_mark_cards [simp]: "length (mark_cards index i cs) = length cs"
  by (induction cs arbitrary: i) simp_all

lemma length_mark_indicators [simp]: "length (mark_indicators index i ds) = length ds"
  by (induction ds arbitrary: i) simp_all

lemma andThen_Inr [simp]: "andThen (Inr w) f = f w"
  by (simp add: andThen_def)

lemma andThen_Inl [simp]: "andThen (Inl x) f = Inl x"
  by (simp add: andThen_def)

subsection \<open>Navigation\<close>

lemma updateCarousel_mounted:
  assumes "mounted w" "0 \<le> i" "i < totalCards w"
  shows "\<exists>w'. updateCarousel i a w = Inr w'
           \<and> currentIndex w' = i \<and> isTransitioning w'
           \<and> cards w' = mark_cards i 0 (cards w)
           \<and> totalCards w' = totalCards w \<and> mounted w'
           \<and> timers w' = timers w @ [\<lparr>tid = nextTimerId w, task = EndTransition,
                                       due = now w + (if a then TRANSITION_DURATION else 0),
                                       every = None\<rparr>]
           \<and> nextTimerId w' = nextTimerId w + 1
           \<and> autoPlayTimer w' = autoPlayTimer w \<and> isAutoPlaying w' = isAutoPlaying w
           \<and> resizeTimer w' = resizeTimer w \<and> now w' = now w"
  using assms
  by (auto simp: updateCarousel_def updateCards_def updateIndicators_def updateButtons_def
        announceCurrentTestimonial_def scheduleEndTransition_def setTimeout_def mounted_def
        Let_def)

lemma resetAutoPlay_frame:
  "currentIndex (resetAutoPlay w) = currentIndex w"
  "totalCards (resetAutoPlay w) = totalCards w"
  "isTransitioning (resetAutoPlay w) = isTransitioning w"
  "cards (resetAutoPlay w) = cards w"
  "isAutoPlaying (resetAutoPlay w) = isAutoPlaying w"
  "now (resetAutoPlay w) = now w"
  "mounted (resetAutoPlay w) = mounted w"
  by (simp_all add: resetAutoPlay_def resumeAutoPlay_def pauseAutoPlay_def clearTimer_def
        setInterval_def mounted_def Let_def split: option.splits)

lemma navigateTo_mounted:
  assumes "mounted w" "1 \<le> totalCards w" "\<not> isTransitioning w"
  shows "\<exists>w'. navigateTo i w = Inr w'
           \<and> currentIndex w' = (if i < 0 then totalCards w - 1
                                else if i \<ge> totalCards w then 0 else i)
           \<and> totalCards w' = totalCards w \<and> mounted w'"
proof -
  define k where "k = (if i < 0 then totalCards w - 1 else if i \<ge> totalCards w then 0 else i)"
  have k: "0 \<le> k" "k < totalCards w" using assms(2) by (auto simp: k_def)
  show ?thesis
  proof (cases "k = currentIndex w")
    case True
    then have "navigateTo i w = Inr w" using assms(3) by (simp add: navigateTo_def k_def)
    then show ?thesis using True assms(1) by (simp add: k_def)
  next
    case False
    from updateCarousel_mounted [OF assms(1) k, of True]
    obtain u where u: "updateCarousel k True w = Inr u" "currentIndex u = k"
      "totalCards u = totalCards w" "mounted u" by blast
    have "navigateTo i w = Inr (resetAutoPlay u)"
      using assms(3) False u(1) by (simp add: navigateTo_def k_def [symmetric] Let_def)
    then show ?thesis using u by (simp add: resetAutoPlay_frame k_def)
  qed
qed

lemma index_updateCarousel:
  "currentIndex (after (updateCarousel k a w)) = k"
  by (auto simp: updateCarousel_def updateCards_def updateIndicators_def updateButtons_def
        announceCurrentTestimonial_def scheduleEndTransition_def setTimeout_def andThen_def
        Let_def split: option.splits sum.splits)

lemma index_navigateTo:
  assumes "\<not> isTransitioning w"
  shows "currentIndex (after (navigateTo i w))
           = (if i < 0 then totalCards w - 1 else if totalCards w \<le> i then 0 else i)"
proof -
  have "currentIndex (after (andThen (updateCarousel k True w) (\<lambda>w'. Inr (resetAutoPlay w')))) = k"
    for k
    using index_updateCarousel [of k True w]
    by (cases "updateCarousel k True w") (auto simp: resetAutoPlay_frame)
  then show ?thesis using assms by (simp add: navigateTo_def Let_def)
qed

lemma js_rem_small: "0 \<le> a \<Longrightarrow> a < n \<Longrightarrow> js_rem a n = a"
  by (cases "a = 0") (simp_all add: js_rem_def)

lemma spec_index_near:
  assumes "2 \<le> N" "- 1 \<le> i" "i \<le> N"
  shows "spec_index N i = (if i < 0 then N - 1 else if N \<le> i then 0 else i)"
proof -
  consider "i = - 1" | "i = N" | "0 \<le> i \<and> i < N" using assms by linarith
  then show ?thesis
  proof cases
    case 1
    have "js_rem (- 1) N = - 1" using assms(1) by (simp add: js_rem_def)
    then show ?thesis using 1 assms(1) by (simp add: spec_index_def js_rem_small)
  next
    case 2
    have "js_rem N N = 0" by (simp add: js_rem_def)
    then show ?thesis using 2 assms(1) by (simp add: spec_index_def js_rem_def)
  next
    case 3
    then have "js_rem i N = i" by (simp add: js_rem_small)
    moreover have "js_rem (i + N) N = i" using 3 assms(1) by (simp add: js_rem_def)
    ultimately show ?thesis using 3 by (simp add: spec_index_def)
  qed
qed

text \<open>
  Claim C1, as amended. The claim states that \<open>navigate(i)\<close> yields the index
  \<open>((i % N) + N) % N\<close> for every integer \<open>i\<close>, and index 1 for \<open>navigate(5)\<close> on three
  cards. \<open>navigateTo\<close> wraps once, not modulo \<open>N\<close>; what holds is: for every card count
  \<open>N \<ge> 2\<close>, with no transition in progress, and every \<open>i\<close> with \<open>-1 \<le> i \<le> N\<close> (the
  targets the module's own callers pass), \<open>navigateTo i\<close> leaves
  \<open>currentIndex = ((i % N) + N) % N\<close>; on the mounted carousel it returns normally.
\<close>

theorem navigate_modular_near:
  assumes "2 \<le> totalCards w" "\<not> isTransitioning w" "- 1 \<le> i" "i \<le> totalCards w"
  shows "currentIndex (after (navigateTo i w)) = spec_index (totalCards w) i
         \<and> (mounted w \<longrightarrow> (\<exists>w'. navigateTo i w = Inr w'))"
proof -
  have "mounted w \<longrightarrow> (\<exists>w'. navigateTo i w = Inr w')"
    using navigateTo_mounted [of w i] assms(1,2) by auto
  then show ?thesis
    using index_navigateTo [OF assms(2), of i] spec_index_near [OF assms(1,3,4)] by simp
qed

theorem navigate_modular_near_witness:
  "2 \<le> totalCards settled2 \<and> \<not> isTransitioning settled2
   \<and> (- 1 :: int) \<le> 3 \<and> 3 \<le> totalCards settled2 \<and> mounted settled2
   \<and> currentIndex (after (navigateTo 3 settled2)) = spec_index 3 3
   \<and> (\<exists>w'. navigateTo 3 settled2 = Inr w')"
proof -
  have h2: "2 \<le> totalCards settled2" by code_simp
  have h3: "\<not> isTransitioning settled2" by code_simp
  have h4: "- 1 \<le> (3 :: int)" by simp
  have h5: "3 \<le> totalCards settled2" by code_simp
  have n: "totalCards settled2 = 3" "mounted settled2" by code_simp+
  show ?thesis
    using h2 h3 h5 n navigate_modular_near [OF h2 h3 h4 h5]
    by simp
qed

text \<open>
  The counterexample to C1 as stated: on the three-card carousel at rest on index 2,
  \<open>navigateTo 5\<close> returns normally with index 0, which is neither the 2 of the formula
  nor the 1 of the scenario.
\<close>

theorem navigate_modular_counterexample:
  "2 \<le> totalCards settled2 \<and> \<not> isTransitioning settled2
   \<and> totalCards settled2 = 3 \<and> currentIndex settled2 = 2
   \<and> navigateTo 5 settled2 = Inr (after (navigateTo 5 settled2))
   \<and> currentIndex (after (navigateTo 5 settled2)) = 0
   \<and> spec_index 3 5 = 2
   \<and> currentIndex (after (navigateTo 5 settled2)) \<noteq> spec_index (totalCards settled2) 5
   \<and> currentIndex (after (navigateTo 5 settled2)) \<noteq> 1"
proof -
  have f: "2 \<le> totalCards settled2 \<and> \<not> isTransitioning settled2
   \<and> totalCards settled2 = 3 \<and> currentIndex settled2 = 2
   \<and> currentIndex (after (navigateTo 5 settled2)) = 0
   \<and> spec_index 3 5 = 2
   \<and> currentIndex (after (navigateTo 5 settled2)) \<noteq> spec_index (totalCards settled2) 5
   \<and> currentIndex (after (navigateTo 5 settled2)) \<noteq> 1"
    by code_simp
  have m: "mounted settled2" by code_simp
  from navigateTo_mounted [of settled2 5] m f
  obtain w' where "navigateTo 5 settled2 = Inr w'" by auto
  then have "navigateTo 5 settled2 = Inr (after (navigateTo 5 settled2))" by simp
  then show ?thesis using f by blast
qed

text \<open>
  Claim C2: for every card count \<open>N \<ge> 2\<close>, with no transition in progress, and every
  integer \<open>i\<close>, \<open>navigateTo i\<close> wraps the target in a single step: a negative \<open>i\<close> gives
  \<open>N - 1\<close>, an \<open>i \<ge> N\<close> gives \<open>0\<close>, an \<open>i\<close> in \<open>[0, N)\<close> gives \<open>i\<close>; when the wrapped index
  is the current one, the call returns with the world as it was; and on the mounted
  carousel the call always returns normally.
\<close>

theorem navigate_wraps_once:
  assumes "2 \<le> totalCards w" "\<not> isTransitioning w"
  shows "(i < 0 \<longrightarrow> currentIndex (after (navigateTo i w)) = totalCards w - 1)
         \<and> (totalCards w \<le> i \<longrightarrow> currentIndex (after (navigateTo i w)) = 0)
         \<and> (0 \<le> i \<and> i < totalCards w \<longrightarrow> currentIndex (after (navigateTo i w)) = i)
         \<and> ((if i < 0 then totalCards w - 1 else if totalCards w \<le> i then 0 else i)
              = currentIndex w \<longrightarrow> navigateTo i w = Inr w)
         \<and> (mounted w \<longrightarrow> (\<exists>w'. navigateTo i w = Inr w'))"
proof -
  have "mounted w \<longrightarrow> (\<exists>w'. navigateTo i w = Inr w')"
    using navigateTo_mounted [of w i] assms by auto
  moreover have "(if i < 0 then totalCards w - 1 else if totalCards w \<le> i then 0 else i)
              = currentIndex w \<longrightarrow> navigateTo i w = Inr w"
    by (simp add: navigateTo_def Let_def)
  ultimately show ?thesis using index_navigateTo [OF assms(2), of i] assms(1) by simp
qed

theorem navigate_wraps_once_witness:
  "2 \<le> totalCards settled2 \<and> \<not> isTransitioning settled2 \<and> mounted settled2
   \<and> totalCards settled2 = 3 \<and> currentIndex settled2 = 2
   \<and> currentIndex (after (navigateTo 5 settled2)) = 0
   \<and> currentIndex (after (navigateTo (- 4) settled2)) = 2
   \<and> navigateTo (- 4) settled2 = Inr settled2
   \<and> (\<exists>w'. navigateTo 5 settled2 = Inr w')"
proof -
  have h2: "2 \<le> totalCards settled2" by code_simp
  have h3: "\<not> isTransitioning settled2" by code_simp
  have n: "mounted settled2" "totalCards settled2 = 3" "currentIndex settled2 = 2" by code_simp+
  show ?thesis
    using h2 h3 n navigate_wraps_once [OF h2 h3, of 5] navigate_wraps_once [OF h2 h3, of "- 4"]
    by simp
qed

text \<open>
  Claim C3: in every world with \<open>isTransitioning\<close> set, \<open>navigateTo i\<close> returns normally
  and leaves the whole world unchanged: the carousel state, the timers, the cards, the
  indicators and everything else.
\<close>

theorem navigate_during_transition:
  "isTransitioning w \<Longrightarrow> navigateTo i w = Inr w"
  by (simp add: navigateTo_def)

theorem navigate_during_transition_witness:
  "isTransitioning started \<and> navigateTo 1 started = Inr started"
proof -
  have h: "isTransitioning started" by code_simp
  show ?thesis using h navigate_during_transition [OF h, of 1] by simp
qed

subsection \<open>Pausing and resuming auto-play\<close>

lemma auto_timers_simps [simp]:
  "auto_timers (w\<lparr>autoPlayTimer := h\<rparr>) = auto_timers w"
  "auto_timers (w\<lparr>isAutoPlaying := b\<rparr>) = auto_timers w"
  by (simp_all add: auto_timers_def)

lemma auto_timers_clear:
  "auto_timers (clearTimer (Some h) w) = filter (\<lambda>t. tid t \<noteq> h) (auto_timers w)"
  by (auto simp: auto_timers_def clearTimer_def intro: filter_cong)

lemma filter_tid_single:
  "map tid ts = [h] \<Longrightarrow> filter (\<lambda>t. tid t \<noteq> h) ts = []"
  by (cases ts) auto

lemma pauseAutoPlay_cancels:
  assumes "timers_ok w"
  shows "autoPlayTimer (pauseAutoPlay w) = None" "auto_timers (pauseAutoPlay w) = []"
proof -
  have ids: "map tid (auto_timers w) = (case autoPlayTimer w of None \<Rightarrow> [] | Some h \<Rightarrow> [h])"
    and started: "autoPlayTimer w \<noteq> None \<longrightarrow> isAutoPlaying w"
    using assms by (simp_all add: timers_ok_def)
  show "autoPlayTimer (pauseAutoPlay w) = None"
    using started by (auto simp: pauseAutoPlay_def)
  show "auto_timers (pauseAutoPlay w) = []"
  proof (cases "autoPlayTimer w")
    case None
    then have "auto_timers w = []" using ids by simp
    then show ?thesis using None by (simp add: pauseAutoPlay_def clearTimer_def)
  next
    case (Some h)
    then have "filter (\<lambda>t. tid t \<noteq> h) (auto_timers w) = []"
      using ids by (simp add: filter_tid_single)
    then show ?thesis using Some started by (simp add: pauseAutoPlay_def auto_timers_clear)
  qed
qed

lemma pauseAutoPlay_twice: "pauseAutoPlay (pauseAutoPlay w) = pauseAutoPlay w"
  by (simp add: pauseAutoPlay_def clearTimer_def split: option.splits)

lemma resumeAutoPlay_starts:
  assumes "timers_ok w"
  shows "\<exists>h. autoPlayTimer (resumeAutoPlay w) = Some h \<and> 0 < h
           \<and> map tid (auto_timers (resumeAutoPlay w)) = [h]"
proof (cases "autoPlayTimer w")
  case None
  then show ?thesis using assms
    by (simp add: resumeAutoPlay_def truthy_def setInterval_def timers_ok_def auto_timers_def)
next
  case (Some h)
  then have "map tid (auto_timers w) = [h]" using assms by (simp add: timers_ok_def)
  then have "h \<in> set (map tid (auto_timers w))" by simp
  then have "\<exists>t \<in> set (timers w). tid t = h" by (auto simp: auto_timers_def)
  then have "0 < h" using assms by (auto simp: timers_ok_def)
  then show ?thesis using Some assms
    by (simp add: resumeAutoPlay_def truthy_def timers_ok_def)
qed

lemma resumeAutoPlay_twice:
  assumes "timers_ok w"
  shows "resumeAutoPlay (resumeAutoPlay w) = resumeAutoPlay w"
proof -
  from resumeAutoPlay_starts [OF assms]
  obtain h where "autoPlayTimer (resumeAutoPlay w) = Some h" "0 < h" by auto
  then have "truthy (autoPlayTimer (resumeAutoPlay w))" by (simp add: truthy_def)
  then show ?thesis by (simp add: resumeAutoPlay_def [of "resumeAutoPlay w"])
qed

text \<open>
  Claim C5: with the timer table in order, \<open>pauseAutoPlay\<close> and \<open>resumeAutoPlay\<close> are
  idempotent. Pausing twice gives the world of pausing once, in which the handle is \<open>null\<close>
  and no auto-play timer is left in the table; resuming twice gives the world of resuming
  once, in which the table holds exactly one auto-play timer, the one whose handle
  \<open>state.autoPlayTimer\<close> holds.
\<close>

theorem pause_resume_idempotent:
  assumes "timers_ok w"
  shows "pauseAutoPlay (pauseAutoPlay w) = pauseAutoPlay w
         \<and> autoPlayTimer (pauseAutoPlay w) = None \<and> auto_timers (pauseAutoPlay w) = []
         \<and> resumeAutoPlay (resumeAutoPlay w) = resumeAutoPlay w
         \<and> length (auto_timers (resumeAutoPlay w)) = 1
         \<and> autoPlayTimer (resumeAutoPlay w) = Some (tid (hd (auto_timers (resumeAutoPlay w))))"
proof -
  from resumeAutoPlay_starts [OF assms]
  obtain h where h: "autoPlayTimer (resumeAutoPlay w) = Some h"
    "map tid (auto_timers (resumeAutoPlay w)) = [h]" by auto
  from h(2) have "length (auto_timers (resumeAutoPlay w)) = 1"
    "tid (hd (auto_timers (resumeAutoPlay w))) = h"
    by (cases "auto_timers (resumeAutoPlay w)"; simp)+
  then show ?thesis
    using h(1) pauseAutoPlay_twice pauseAutoPlay_cancels [OF assms] resumeAutoPlay_twice [OF assms]
    by simp
qed

theorem pause_resume_idempotent_witness:
  "timers_ok settled2
   \<and> pauseAutoPlay (pauseAutoPlay settled2) = pauseAutoPlay settled2
   \<and> auto_timers (pauseAutoPlay settled2) = []
   \<and> resumeAutoPlay (resumeAutoPlay (pauseAutoPlay settled2)) = resumeAutoPlay (pauseAutoPlay settled2)
   \<and> length (auto_timers (resumeAutoPlay settled2)) = 1"
proof -
  have h: "timers_ok settled2" by code_simp
  have p: "timers_ok (pauseAutoPlay settled2)" by code_simp
  show ?thesis
    using h pause_resume_idempotent [OF h] pause_resume_idempotent [OF p] by simp
qed

subsection \<open>The flag \<open>isAutoPlaying\<close>\<close>

text \<open>No function of the module writes \<open>false\<close> to \<open>state.isAutoPlaying\<close>: once set, the
  flag survives every listener and every timer callback, whether it returns or throws.\<close>

lemma flag_updateCarousel:
  "isAutoPlaying (after (updateCarousel i a w)) = isAutoPlaying w"
  by (auto simp: updateCarousel_def updateCards_def updateIndicators_def updateButtons_def
        announceCurrentTestimonial_def scheduleEndTransition_def setTimeout_def andThen_def
        Let_def split: option.splits sum.splits)

lemma flag_autoplay:
  "isAutoPlaying w \<Longrightarrow> isAutoPlaying (pauseAutoPlay w)"
  "isAutoPlaying w \<Longrightarrow> isAutoPlaying (resumeAutoPlay w)"
  "isAutoPlaying w \<Longrightarrow> isAutoPlaying (resetAutoPlay w)"
  "isAutoPlaying (startAutoPlay w)"
  by (simp_all add: pauseAutoPlay_def resumeAutoPlay_def resetAutoPlay_def startAutoPlay_def
        clearTimer_def setInterval_def split: option.splits)

lemma flag_navigateTo:
  assumes "isAutoPlaying w"
  shows "isAutoPlaying (after (navigateTo i w))"
proof -
  have "isAutoPlaying (after (andThen (updateCarousel k True w) (\<lambda>w'. Inr (resetAutoPlay w'))))" for k
    using assms flag_updateCarousel [of k True w]
    by (cases "updateCarousel k True w") (auto simp: flag_autoplay)
  then show ?thesis using assms by (simp add: navigateTo_def Let_def)
qed

lemma flag_andThen:
  assumes "isAutoPlaying (after r)" "\<And>u. isAutoPlaying u \<Longrightarrow> isAutoPlaying (after (f u))"
  shows "isAutoPlaying (after (andThen r f))"
  using assms by (cases r) auto

lemma flag_handleKeyDown:
  assumes "isAutoPlaying w"
  shows "isAutoPlaying (after (handleKeyDown key w))"
proof -
  have "isAutoPlaying (after (andThen (navigateTo k w) (\<lambda>w'. Inr (w'\<lparr>lastKeyPressTime := t\<rparr>))))"
    for k t
    by (rule flag_andThen [OF flag_navigateTo [OF assms]]) simp
  then show ?thesis using assms by (simp add: handleKeyDown_def Let_def)
qed

lemma flag_handleTouchEnd:
  assumes "isAutoPlaying w"
  shows "isAutoPlaying (after (handleTouchEnd t w))"
proof -
  have "isAutoPlaying (after (andThen (navigateTo k w)
          (\<lambda>w'. Inr (w'\<lparr>touchStartX := 0, touchStartY := 0, touchStartTime := 0\<rparr>))))" for k
    by (rule flag_andThen [OF flag_navigateTo [OF assms]]) simp
  then show ?thesis using assms by (simp add: handleTouchEnd_def Let_def)
qed

lemma flag_handleIndicatorClick:
  "isAutoPlaying w \<Longrightarrow> isAutoPlaying (after (handleIndicatorClick hit w))"
  by (simp add: handleIndicatorClick_def flag_navigateTo split: option.splits)

lemma flag_handleResize:
  "isAutoPlaying w \<Longrightarrow> isAutoPlaying (handleResize w)"
  by (simp add: handleResize_def setTimeout_def clearTimer_def split: option.splits)

lemma flag_deliver:
  assumes "isAutoPlaying w"
  shows "isAutoPlaying (after (deliver e w))"
  using assms
  by (cases e)
    (simp_all add: handlePrevClick_def handleNextClick_def flag_navigateTo flag_autoplay
       handleTouchStart_def handleVisibilityChange_def flag_handleKeyDown flag_handleTouchEnd
       flag_handleIndicatorClick flag_handleResize)

lemma flag_runTask:
  "isAutoPlaying w \<Longrightarrow> isAutoPlaying (after (runTask f w))"
  by (cases f) (simp_all add: flag_navigateTo flag_updateCarousel)

lemma flag_fireTimer:
  assumes "isAutoPlaying w"
  shows "isAutoPlaying (after (fireTimer i w))"
proof (cases "find (\<lambda>t. tid t = i) (timers w)")
  case None
  then show ?thesis using assms by (simp add: fireTimer_def)
next
  case (Some t)
  show ?thesis
  proof (cases "now w < due t")
    case True
    then show ?thesis using Some assms by (simp add: fireTimer_def)
  next
    case False
    show ?thesis
    proof (cases "every t")
      case None
      have "isAutoPlaying (clearTimer (Some i) w)" using assms by (simp add: clearTimer_def)
      then show ?thesis using Some False None by (simp add: fireTimer_def flag_runTask)
    next
      case (Some ms)
      have "isAutoPlaying (after (case runTask (task t) w of
               Inl (e, w') \<Rightarrow> Inl (e, reschedule i ms w')
             | Inr w' \<Rightarrow> Inr (reschedule i ms w')))"
        using flag_runTask [OF assms, of "task t"]
        by (cases "runTask (task t) w") (auto simp: reschedule_def)
      then show ?thesis using \<open>find (\<lambda>t. tid t = i) (timers w) = Some t\<close> False Some
        by (simp add: fireTimer_def)
    qed
  qed
qed

lemma flag_dispatch:
  "isAutoPlaying w \<Longrightarrow> isAutoPlaying (after (dispatch e w))"
  by (cases e) (simp_all add: flag_deliver flag_fireTimer)

lemma flag_run: "isAutoPlaying w \<Longrightarrow> isAutoPlaying (run es w)"
  by (induction es arbitrary: w) (simp_all add: flag_dispatch)

text \<open>
  Claim C9: \<open>startAutoPlay\<close> sets \<open>isAutoPlaying\<close>; from any world in which the flag is set,
  \<open>pauseAutoPlay\<close> cancels the timer (the handle becomes \<open>null\<close>) and leaves the flag set,
  the flag is still set after any sequence of events, and \<open>startAutoPlay\<close> is then a no-op.
\<close>

theorem isAutoPlaying_never_cleared:
  "isAutoPlaying (startAutoPlay w)
   \<and> (isAutoPlaying w \<longrightarrow>
        isAutoPlaying (pauseAutoPlay w) \<and> autoPlayTimer (pauseAutoPlay w) = None
        \<and> isAutoPlaying (run es w) \<and> startAutoPlay (run es w) = run es w)"
  by (simp add: flag_autoplay flag_run startAutoPlay_def [of "run es w"])
    (simp add: pauseAutoPlay_def)

theorem isAutoPlaying_never_cleared_witness:
  "isAutoPlaying (startAutoPlay page3)
   \<and> isAutoPlaying started
   \<and> isAutoPlaying (pauseAutoPlay started) \<and> autoPlayTimer (pauseAutoPlay started) = None
   \<and> auto_timers (pauseAutoPlay started) = []
   \<and> isAutoPlaying (run [Dom MouseEnter, Elapse 6000, Dom NextClick] started)
   \<and> startAutoPlay (run [Dom MouseEnter, Elapse 6000, Dom NextClick] started)
       = run [Dom MouseEnter, Elapse 6000, Dom NextClick] started"
proof -
  have h: "isAutoPlaying started" by code_simp
  have t: "auto_timers (pauseAutoPlay started) = []" by code_simp
  show ?thesis
    using h t isAutoPlaying_never_cleared [of page3 "[]"]
      isAutoPlaying_never_cleared [of started "[Dom MouseEnter, Elapse 6000, Dom NextClick]"]
    by simp
qed

subsection \<open>What the handlers leave alone\<close>

text \<open>No function of the module writes the engine's arithmetic, and only the two touch
  handlers write \<open>state.touchStartX\<close>.\<close>

lemma keep_updateCarousel:
  "engine (after (updateCarousel i a w)) = engine w
   \<and> touchStartX (after (updateCarousel i a w)) = touchStartX w"
  by (auto simp: updateCarousel_def updateCards_def updateIndicators_def updateButtons_def
        announceCurrentTestimonial_def scheduleEndTransition_def setTimeout_def andThen_def
        Let_def split: option.splits sum.splits)

lemma keep_autoplay:
  "engine (pauseAutoPlay w) = engine w \<and> touchStartX (pauseAutoPlay w) = touchStartX w"
  "engine (resumeAutoPlay w) = engine w \<and> touchStartX (resumeAutoPlay w) = touchStartX w"
  "engine (resetAutoPlay w) = engine w \<and> touchStartX (resetAutoPlay w) = touchStartX w"
  "engine (startAutoPlay w) = engine w \<and> touchStartX (startAutoPlay w) = touchStartX w"
  by (simp_all add: pauseAutoPlay_def resumeAutoPlay_def resetAutoPlay_def startAutoPlay_def
        clearTimer_def setInterval_def split: option.splits)

lemma keep_navigateTo:
  "engine (after (navigateTo i w)) = engine w
   \<and> touchStartX (after (navigateTo i w)) = touchStartX w"
proof -
  have "engine (after (andThen (updateCarousel k True w) (\<lambda>w'. Inr (resetAutoPlay w')))) = engine w
        \<and> touchStartX (after (andThen (updateCarousel k True w) (\<lambda>w'. Inr (resetAutoPlay w'))))
            = touchStartX w" for k
    using keep_updateCarousel [of k True w]
    by (cases "updateCarousel k True w") (auto simp: keep_autoplay)
  then show ?thesis by (simp add: navigateTo_def Let_def)
qed

lemma keep_handleKeyDown:
  "engine (after (handleKeyDown key w)) = engine w
   \<and> touchStartX (after (handleKeyDown key w)) = touchStartX w"
proof -
  have "engine (after (andThen (navigateTo k w) (\<lambda>w'. Inr (w'\<lparr>lastKeyPressTime := t\<rparr>)))) = engine w
        \<and> touchStartX (after (andThen (navigateTo k w) (\<lambda>w'. Inr (w'\<lparr>lastKeyPressTime := t\<rparr>))))
            = touchStartX w" for k t
    using keep_navigateTo [of k w] by (cases "navigateTo k w") auto
  then show ?thesis by (simp add: handleKeyDown_def Let_def)
qed

lemma keep_handleIndicatorClick:
  "engine (after (handleIndicatorClick hit w)) = engine w
   \<and> touchStartX (after (handleIndicatorClick hit w)) = touchStartX w"
  by (simp add: handleIndicatorClick_def keep_navigateTo split: option.splits)

lemma keep_handleResize:
  "engine (handleResize w) = engine w \<and> touchStartX (handleResize w) = touchStartX w"
  by (simp add: handleResize_def setTimeout_def clearTimer_def split: option.splits)

lemma engine_handleTouchEnd: "engine (after (handleTouchEnd t w)) = engine w"
proof -
  have "engine (after (andThen (navigateTo k w)
          (\<lambda>w'. Inr (w'\<lparr>touchStartX := 0, touchStartY := 0, touchStartTime := 0\<rparr>)))) = engine w"
    for k
    using keep_navigateTo [of k w] by (cases "navigateTo k w") auto
  then show ?thesis by (simp add: handleTouchEnd_def Let_def)
qed

lemma touchEnd_unrecorded: "touchStartX w = 0 \<Longrightarrow> handleTouchEnd t w = Inr w"
  by (simp add: handleTouchEnd_def)

lemma engine_deliver: "engine (after (deliver e w)) = engine w"
  by (cases e)
    (simp_all add: handlePrevClick_def handleNextClick_def keep_navigateTo keep_autoplay
       handleTouchStart_def handleVisibilityChange_def keep_handleKeyDown
       engine_handleTouchEnd keep_handleIndicatorClick keep_handleResize)

lemma zero_start_deliver:
  assumes "touchStartX w = 0" "\<not> starts_touch (Dom e)"
  shows "touchStartX (after (deliver e w)) = 0"
  using assms
  by (cases e)
    (simp_all add: handlePrevClick_def handleNextClick_def keep_navigateTo keep_autoplay
       handleVisibilityChange_def keep_handleKeyDown touchEnd_unrecorded
       keep_handleIndicatorClick keep_handleResize)

lemma keep_runTask:
  "engine (after (runTask f w)) = engine w
   \<and> touchStartX (after (runTask f w)) = touchStartX w"
  by (cases f) (simp_all add: keep_navigateTo keep_updateCarousel)

lemma keep_fireTimer:
  "engine (after (fireTimer i w)) = engine w
   \<and> touchStartX (after (fireTimer i w)) = touchStartX w"
proof (cases "find (\<lambda>t. tid t = i) (timers w)")
  case None
  then show ?thesis by (simp add: fireTimer_def)
next
  case (Some t)
  show ?thesis
  proof (cases "now w < due t")
    case True
    then show ?thesis using Some by (simp add: fireTimer_def)
  next
    case False
    show ?thesis
    proof (cases "every t")
      case None
      have "engine (clearTimer (Some i) w) = engine w"
        "touchStartX (clearTimer (Some i) w) = touchStartX w"
        by (simp_all add: clearTimer_def)
      then show ?thesis
        using Some False None keep_runTask [of "task t" "clearTimer (Some i) w"]
        by (simp add: fireTimer_def)
    next
      case (Some ms)
      have "engine (after (case runTask (task t) w of
               Inl (e, w') \<Rightarrow> Inl (e, reschedule i ms w')
             | Inr w' \<Rightarrow> Inr (reschedule i ms w'))) = engine w
            \<and> touchStartX (after (case runTask (task t) w of
               Inl (e, w') \<Rightarrow> Inl (e, reschedule i ms w')
             | Inr w' \<Rightarrow> Inr (reschedule i ms w'))) = touchStartX w"
        using keep_runTask [of "task t" w]
        by (cases "runTask (task t) w") (auto simp: reschedule_def)
      then show ?thesis using \<open>find (\<lambda>t. tid t = i) (timers w) = Some t\<close> False Some
        by (simp add: fireTimer_def)
    qed
  qed
qed

lemma engine_dispatch: "engine (after (dispatch e w)) = engine w"
  by (cases e) (simp_all add: engine_deliver keep_fireTimer)

lemma engine_run: "engine (run es w) = engine w"
  by (induction es arbitrary: w) (simp_all add: engine_dispatch)

lemma zero_start_dispatch:
  assumes "touchStartX w = 0" "\<not> starts_touch e"
  shows "touchStartX (after (dispatch e w)) = 0"
  using assms by (cases e) (simp_all add: zero_start_deliver keep_fireTimer)

lemma zero_start_run:
  assumes "touchStartX w = 0" "\<forall>e \<in> set es. \<not> starts_touch e"
  shows "touchStartX (run es w) = 0"
  using assms by (induction es arbitrary: w) (simp_all add: zero_start_dispatch)

lemma engine_andThen:
  assumes "engine (after r) = engine w" "\<And>u. engine (after (f u)) = engine u"
  shows "engine (after (andThen r f)) = engine w"
  using assms by (cases r) auto

lemma engine_create:
  "engine (after (createCarouselControls w)) = engine w"
  "engine (after (createIndicators w)) = engine w"
  "engine (after (createLiveRegion w)) = engine w"
  "engine (after (attachEventListeners w)) = engine w"
  by (simp_all add: createCarouselControls_def injectCarouselStyles_def createIndicators_def
        createLiveRegion_def attachEventListeners_def Let_def)

lemma engine_activate: "engine (after (activate w)) = engine w"
  unfolding activate_def
  by (intro engine_andThen engine_create) (simp_all add: keep_updateCarousel keep_autoplay)

lemma engine_init: "engine (init w) = engine w"
proof -
  have "engine (case activate u of Inl (e, w') \<Rightarrow> w'\<lparr>console := console w' @ [LogError e]\<rparr>
                     | Inr w' \<Rightarrow> w') = engine u" for u
    using engine_activate [of u] by (cases "activate u") (auto split: prod.splits)
  then show ?thesis by (simp add: init_def Let_def)
qed

text \<open>The sample worlds run on the engine of the sample page.\<close>

lemma engine_samples:
  "engine started = exact_arith" "engine settled2 = exact_arith"
  "engine swipe_start = exact_arith" "engine swipe_in_transition = exact_arith"
  "engine swipe_from_edge = exact_arith"
  unfolding started_def settled2_def swipe_start_def swipe_in_transition_def swipe_from_edge_def
  by (simp_all only: engine_run engine_init) (simp_all add: page3_def)

lemma exact_level_swipe:
  "0 < x \<Longrightarrow> swipeAngle exact_arith x 0 = 0"
  "num_sub exact_arith a b = a - b"
  "isHorizontalSwipe exact_arith 0"
  by (simp_all add: swipeAngle_def exact_arith_def atan2_def isHorizontalSwipe_def
        TOUCH_ANGLE_THRESHOLD_def)

subsection \<open>Touch gestures\<close>

text \<open>
  Claim C10: a single-touch gesture that starts at \<open>clientX = 0\<close> stores \<open>0\<close> in
  \<open>touchStartX\<close>, which is what \<open>handleTouchEnd\<close> takes for "no gesture". Whatever happens
  between the finger going down and going up, short of another gesture starting (time
  passing, timers firing, any other event), the stored \<open>0\<close> stays; and in every world that
  stores \<open>0\<close>, whatever the end point, the elapsed time and the engine's arithmetic,
  \<open>handleTouchEnd\<close> returns at once: the world, and so the index, is unchanged and no
  navigation happens.
\<close>

theorem touch_from_left_edge_ignored:
  assumes "clientX t0 = 0" "\<forall>e \<in> set es. \<not> starts_touch e"
  shows "touchStartX (handleTouchStart [t0] w) = 0
         \<and> handleTouchEnd t1 (handleTouchStart [t0] w) = Inr (handleTouchStart [t0] w)
         \<and> currentIndex (handleTouchStart [t0] w) = currentIndex w
         \<and> touchStartX (run es (handleTouchStart [t0] w)) = 0
         \<and> handleTouchEnd t1 (run es (handleTouchStart [t0] w))
             = Inr (run es (handleTouchStart [t0] w))
         \<and> (\<forall>u. touchStartX u = 0 \<longrightarrow> handleTouchEnd t1 u = Inr u)"
proof -
  have z: "touchStartX (handleTouchStart [t0] w) = 0"
    using assms(1) by (simp add: handleTouchStart_def)
  have r: "touchStartX (run es (handleTouchStart [t0] w)) = 0"
    by (rule zero_start_run [OF z assms(2)])
  have "currentIndex (handleTouchStart [t0] w) = currentIndex w"
    by (simp add: handleTouchStart_def)
  then show ?thesis using z r by (simp add: touchEnd_unrecorded)
qed

theorem touch_from_left_edge_ignored_witness:
  "clientX \<lparr>clientX = 0, clientY = 100\<rparr> = 0
   \<and> \<not> starts_touch (Dom (TouchMove [\<lparr>clientX = 40, clientY = 100\<rparr>]))
   \<and> \<not> starts_touch (Elapse 200)
   \<and> now (run [Dom (TouchMove [\<lparr>clientX = 40, clientY = 100\<rparr>]), Elapse 200] (handleTouchStart [\<lparr>clientX = 0, clientY = 100\<rparr>] settled2))
       - touchStartTime
           (run [Dom (TouchMove [\<lparr>clientX = 40, clientY = 100\<rparr>]), Elapse 200] (handleTouchStart [\<lparr>clientX = 0, clientY = 100\<rparr>] settled2))
       = 200
   \<and> swipeAccepted exact_arith (swipeAngle exact_arith (80 - 0) (100 - 100)) (80 - 0) 200
   \<and> handleTouchEnd \<lparr>clientX = 80, clientY = 100\<rparr>
         (run [Dom (TouchMove [\<lparr>clientX = 40, clientY = 100\<rparr>]), Elapse 200] (handleTouchStart [\<lparr>clientX = 0, clientY = 100\<rparr>] settled2))
       = Inr (run [Dom (TouchMove [\<lparr>clientX = 40, clientY = 100\<rparr>]), Elapse 200]
               (handleTouchStart [\<lparr>clientX = 0, clientY = 100\<rparr>] settled2))
   \<and> currentIndex
         (run [Dom (TouchMove [\<lparr>clientX = 40, clientY = 100\<rparr>]), Elapse 200] (handleTouchStart [\<lparr>clientX = 0, clientY = 100\<rparr>] settled2))
       = 2"
proof -
  let ?u = "run [Dom (TouchMove [\<lparr>clientX = 40, clientY = 100\<rparr>]), Elapse 200] (handleTouchStart [\<lparr>clientX = 0, clientY = 100\<rparr>] settled2)"
  have h: "clientX \<lparr>clientX = 0, clientY = 100\<rparr> = 0" by simp
  have e: "\<forall>e \<in> set [Dom (TouchMove [\<lparr>clientX = 40, clientY = 100\<rparr>]), Elapse 200]. \<not> starts_touch e" by simp
  have a: "swipeAccepted exact_arith (swipeAngle exact_arith (80 - 0) (100 - 100)) (80 - 0) 200"
    by (simp add: swipeAccepted_def exact_level_swipe SWIPE_THRESHOLD_def)
  have c: "currentIndex ?u = 2" "now ?u - touchStartTime ?u = 200" by code_simp+
  show ?thesis
    using a c
      touch_from_left_edge_ignored [OF h e, of settled2 "\<lparr>clientX = 80, clientY = 100\<rparr>"]
    by simp
qed

subsection \<open>Initialisation on a page without a carousel\<close>

text \<open>
  Claim C7: when the page has no \<open>.testimonials\<close> container, or no grid in it, or fewer
  than two cards in the grid, \<open>init\<close> returns (it is total: nothing escapes its \<open>try\<close>)
  without changing the document, without logging an error, without starting a timer and
  without registering a listener.
\<close>

theorem init_without_carousel:
  assumes "\<not> has_testimonials w \<or> \<not> has_grid w \<or> length (cards w) < 2"
  shows "document_of (init w) = document_of w
         \<and> console (init w) = console w
         \<and> timers (init w) = timers w
         \<and> listening (init w) = listening w
         \<and> currentIndex (init w) = currentIndex w
         \<and> isAutoPlaying (init w) = isAutoPlaying w"
  using assms by (auto simp: init_def document_of_def Let_def)

theorem init_without_carousel_witness:
  "\<not> has_testimonials (page3\<lparr>has_testimonials := False\<rparr>)
   \<and> document_of (init (page3\<lparr>has_testimonials := False\<rparr>))
       = document_of (page3\<lparr>has_testimonials := False\<rparr>)
   \<and> console (init (page3\<lparr>has_testimonials := False\<rparr>)) = []
   \<and> has_testimonials (page3\<lparr>has_grid := False\<rparr>)
   \<and> \<not> has_grid (page3\<lparr>has_grid := False\<rparr>)
   \<and> document_of (init (page3\<lparr>has_grid := False\<rparr>))
       = document_of (page3\<lparr>has_grid := False\<rparr>)
   \<and> listening (init (page3\<lparr>has_grid := False\<rparr>)) = False
   \<and> length (cards (page3\<lparr>cards := [plain_card]\<rparr>)) < 2
   \<and> document_of (init (page3\<lparr>cards := [plain_card]\<rparr>))
       = document_of (page3\<lparr>cards := [plain_card]\<rparr>)
   \<and> timers (init (page3\<lparr>cards := [plain_card]\<rparr>)) = []"
proof -
  have h1: "\<not> has_testimonials (page3\<lparr>has_testimonials := False\<rparr>)
      \<or> \<not> has_grid (page3\<lparr>has_testimonials := False\<rparr>)
      \<or> length (cards (page3\<lparr>has_testimonials := False\<rparr>)) < 2" by simp
  have h2: "\<not> has_testimonials (page3\<lparr>has_grid := False\<rparr>)
      \<or> \<not> has_grid (page3\<lparr>has_grid := False\<rparr>)
      \<or> length (cards (page3\<lparr>has_grid := False\<rparr>)) < 2" by simp
  have h3: "\<not> has_testimonials (page3\<lparr>cards := [plain_card]\<rparr>)
      \<or> \<not> has_grid (page3\<lparr>cards := [plain_card]\<rparr>)
      \<or> length (cards (page3\<lparr>cards := [plain_card]\<rparr>)) < 2" by simp
  have c: "console page3 = []" "timers page3 = []" "listening page3 = False"
    "has_testimonials page3"
    by (simp_all add: page3_def)
  show ?thesis
    using c init_without_carousel [OF h1] init_without_carousel [OF h2]
      init_without_carousel [OF h3]
    by simp
qed

subsection \<open>The timer table\<close>

text \<open>How the functions of the module change the timer table, and that they keep it in
  order.\<close>

lemma timers_ok_cong:
  assumes "timers w' = timers w" "nextTimerId w' = nextTimerId w"
    "autoPlayTimer w' = autoPlayTimer w" "isAutoPlaying w' = isAutoPlaying w"
    "resizeTimer w' = resizeTimer w"
  shows "timers_ok w' = timers_ok w"
  using assms by (simp add: timers_ok_def auto_timers_def split: option.splits)

lemma timers_ok_setTimeout:
  assumes "timers_ok w" "f \<noteq> AutoAdvance"
  shows "timers_ok (snd (setTimeout f ms w))"
  using assms
  by (auto simp: timers_ok_def setTimeout_def auto_timers_def split: option.splits)

lemma updateCarousel_Inr_env:
  assumes "updateCarousel i a w = Inr u"
  shows "timers u = timers (snd (setTimeout EndTransition (if a then TRANSITION_DURATION else 0) w))"
    "nextTimerId u = nextTimerId w + 1" "autoPlayTimer u = autoPlayTimer w"
    "isAutoPlaying u = isAutoPlaying w" "resizeTimer u = resizeTimer w" "now u = now w"
    "currentIndex u = i" "touchStartX u = touchStartX w"
  using assms
  by (auto simp: updateCarousel_def updateCards_def updateIndicators_def updateButtons_def
        announceCurrentTestimonial_def scheduleEndTransition_def setTimeout_def andThen_def
        Let_def split: option.splits sum.splits if_splits)

lemma timers_ok_updateCarousel:
  assumes "timers_ok w" "updateCarousel i a w = Inr u"
  shows "timers_ok u"
proof -
  let ?v = "snd (setTimeout EndTransition (if a then TRANSITION_DURATION else 0) w)"
  have "timers_ok ?v" using assms(1) by (rule timers_ok_setTimeout) simp
  moreover have "timers_ok u = timers_ok ?v"
    using updateCarousel_Inr_env [OF assms(2)]
    by (intro timers_ok_cong) (simp_all add: setTimeout_def)
  ultimately show ?thesis by simp
qed

lemma distinct_map_eq:
  "distinct (map f xs) \<Longrightarrow> x \<in> set xs \<Longrightarrow> y \<in> set xs \<Longrightarrow> f x = f y \<Longrightarrow> x = y"
  by (meson distinct_map inj_on_eq_iff)

lemma auto_timer_by_handle:
  assumes "timers_ok w" "autoPlayTimer w = Some g" "t \<in> set (timers w)"
  shows "tid t = g \<longleftrightarrow> task t = AutoAdvance"
proof -
  have ids: "map tid (auto_timers w) = [g]" using assms(1,2) by (simp add: timers_ok_def)
  then obtain a where a: "auto_timers w = [a]" "tid a = g" by (cases "auto_timers w") auto
  then have "a \<in> set (auto_timers w)" by simp
  then have ain: "a \<in> set (timers w)" "task a = AutoAdvance" by (simp_all add: auto_timers_def)
  have d: "distinct (map tid (timers w))" using assms(1) by (simp add: timers_ok_def)
  show ?thesis
  proof
    assume "tid t = g"
    then have "t = a" using distinct_map_eq [OF d assms(3) ain(1)] a(2) by simp
    then show "task t = AutoAdvance" using ain(2) by simp
  next
    assume "task t = AutoAdvance"
    then have "t \<in> set (auto_timers w)" using assms(3) by (simp add: auto_timers_def)
    then show "tid t = g" using a by simp
  qed
qed

lemma pauseAutoPlay_table:
  assumes "timers_ok w"
  shows "timers (pauseAutoPlay w) = filter (\<lambda>t. task t \<noteq> AutoAdvance) (timers w)"
proof (cases "autoPlayTimer w")
  case None
  then have "auto_timers w = []" using assms by (simp add: timers_ok_def)
  then have "filter (\<lambda>t. task t \<noteq> AutoAdvance) (timers w) = timers w"
    by (simp add: auto_timers_def filter_empty_conv)
  then show ?thesis using None by (simp add: pauseAutoPlay_def clearTimer_def)
next
  case (Some g)
  then have "isAutoPlaying w" using assms by (simp add: timers_ok_def)
  moreover have "filter (\<lambda>t. tid t \<noteq> g) (timers w) = filter (\<lambda>t. task t \<noteq> AutoAdvance) (timers w)"
    using auto_timer_by_handle [OF assms Some] by (intro filter_cong) auto
  ultimately show ?thesis using Some by (simp add: pauseAutoPlay_def clearTimer_def)
qed

lemma timers_ok_pauseAutoPlay:
  assumes "timers_ok w"
  shows "timers_ok (pauseAutoPlay w)"
proof -
  have t: "timers (pauseAutoPlay w) = filter (\<lambda>t. task t \<noteq> AutoAdvance) (timers w)"
    by (rule pauseAutoPlay_table [OF assms])
  have o: "nextTimerId (pauseAutoPlay w) = nextTimerId w"
    "resizeTimer (pauseAutoPlay w) = resizeTimer w"
    "autoPlayTimer (pauseAutoPlay w) = None"
    using pauseAutoPlay_cancels(1) [OF assms]
    by (simp_all add: pauseAutoPlay_def clearTimer_def split: option.splits)
  show ?thesis
    using assms unfolding timers_ok_def [of "pauseAutoPlay w"] t o auto_timers_def
    by (auto simp: timers_ok_def distinct_map_filter split: option.splits)
qed

lemma timers_ok_resumeAutoPlay:
  assumes "timers_ok w" "isAutoPlaying w"
  shows "timers_ok (resumeAutoPlay w)"
proof (cases "truthy (autoPlayTimer w)")
  case True
  then show ?thesis using assms by (simp add: resumeAutoPlay_def)
next
  case False
  have "autoPlayTimer w = None"
  proof (cases "autoPlayTimer w")
    case (Some g)
    then have "g \<in> set (map tid (auto_timers w))" using assms(1) by (simp add: timers_ok_def)
    then have "0 < g" using assms(1) by (auto simp: timers_ok_def auto_timers_def)
    then show ?thesis using False Some by (simp add: truthy_def)
  qed simp
  then show ?thesis using assms
    by (auto simp: resumeAutoPlay_def truthy_def setInterval_def timers_ok_def auto_timers_def
          split: option.splits)
qed

lemma resetAutoPlay_table:
  assumes "timers_ok w"
  shows "timers (resetAutoPlay w) =
           filter (\<lambda>t. task t \<noteq> AutoAdvance) (timers w)
           @ [\<lparr>tid = nextTimerId w, task = AutoAdvance, due = now w + AUTO_PLAY_INTERVAL,
               every = Some AUTO_PLAY_INTERVAL\<rparr>]"
    "autoPlayTimer (resetAutoPlay w) = Some (nextTimerId w)"
    "nextTimerId (resetAutoPlay w) = nextTimerId w + 1"
proof -
  let ?p = "pauseAutoPlay w"
  have p: "autoPlayTimer ?p = None" "timers ?p = filter (\<lambda>t. task t \<noteq> AutoAdvance) (timers w)"
    using pauseAutoPlay_cancels(1) [OF assms] pauseAutoPlay_table [OF assms] by simp_all
  have q: "nextTimerId ?p = nextTimerId w" "now ?p = now w"
    by (simp_all add: pauseAutoPlay_def clearTimer_def split: option.splits)
  show "timers (resetAutoPlay w) =
           filter (\<lambda>t. task t \<noteq> AutoAdvance) (timers w)
           @ [\<lparr>tid = nextTimerId w, task = AutoAdvance, due = now w + AUTO_PLAY_INTERVAL,
               every = Some AUTO_PLAY_INTERVAL\<rparr>]"
    "autoPlayTimer (resetAutoPlay w) = Some (nextTimerId w)"
    "nextTimerId (resetAutoPlay w) = nextTimerId w + 1"
    using p q by (simp_all add: resetAutoPlay_def resumeAutoPlay_def truthy_def setInterval_def)
qed

lemma timers_ok_resetAutoPlay:
  assumes "timers_ok w" "isAutoPlaying w"
  shows "timers_ok (resetAutoPlay w)"
  unfolding resetAutoPlay_def
  by (intro timers_ok_resumeAutoPlay timers_ok_pauseAutoPlay assms)
    (simp add: pauseAutoPlay_def clearTimer_def assms split: option.splits)

lemma find_fresh_timer:
  assumes "\<forall>t \<in> set ts. tid t \<noteq> h" "tid n = h"
  shows "find (\<lambda>t. tid t = h) (ts @ [n]) = Some n"
  using assms by (induction ts) auto

lemma navigateTo_changed:
  assumes "navigateTo i w = Inr w'" "currentIndex w' \<noteq> currentIndex w"
  shows "\<exists>k u. updateCarousel k True w = Inr u \<and> w' = resetAutoPlay u"
  using assms
  by (auto simp: navigateTo_def Let_def andThen_def split: if_splits sum.splits)

text \<open>
  Claim C6: whenever \<open>navigateTo\<close> returns with a changed \<open>currentIndex\<close> (the timer
  table being in order), the auto-play timer was cancelled and scheduled anew in that same
  call: \<open>state.autoPlayTimer\<close> holds a handle that was not in the table before, the timer
  of the old handle is gone, and the only auto-play timer of the table is the new one, due
  \<open>AUTO_PLAY_INTERVAL\<close> after the time of the call. The browser firing it after any
  shorter delay does nothing.
\<close>

theorem navigate_resets_autoplay:
  assumes "timers_ok w" "navigateTo i w = Inr w'" "currentIndex w' \<noteq> currentIndex w"
  shows "\<exists>h. autoPlayTimer w' = Some h \<and> autoPlayTimer w \<noteq> Some h
           \<and> h \<notin> tid ` set (timers w)
           \<and> (\<forall>g. autoPlayTimer w = Some g \<longrightarrow> g \<notin> tid ` set (timers w'))
           \<and> auto_timers w' = [\<lparr>tid = h, task = AutoAdvance, due = now w + AUTO_PLAY_INTERVAL,
                                 every = Some AUTO_PLAY_INTERVAL\<rparr>]
           \<and> (\<forall>d. int d < AUTO_PLAY_INTERVAL \<longrightarrow>
                  dispatch (TimerFire h) (after (dispatch (Elapse d) w'))
                    = Inr (after (dispatch (Elapse d) w')))"
proof -
  from navigateTo_changed [OF assms(2,3)]
  obtain k u where u: "updateCarousel k True w = Inr u" "w' = resetAutoPlay u" by blast
  have ok: "timers_ok u" by (rule timers_ok_updateCarousel [OF assms(1) u(1)])
  note e = updateCarousel_Inr_env [OF u(1)]
  let ?h = "nextTimerId u"
  let ?n = "\<lparr>tid = ?h, task = AutoAdvance, due = now w + AUTO_PLAY_INTERVAL,
             every = Some AUTO_PLAY_INTERVAL\<rparr>"
  have tab: "timers w' = filter (\<lambda>t. task t \<noteq> AutoAdvance) (timers u) @ [?n]"
    and hd: "autoPlayTimer w' = Some ?h"
    using resetAutoPlay_table [OF ok] e(6) u(2) by simp_all
  have below: "\<forall>t \<in> set (timers u). tid t < ?h" using ok by (simp add: timers_ok_def)
  have old: "set (timers w) \<subseteq> set (timers u)" using e(1) by (auto simp: setTimeout_def)
  have fresh: "?h \<notin> tid ` set (timers w)" using below old by auto
  have h_new: "autoPlayTimer w \<noteq> Some ?h"
  proof
    assume "autoPlayTimer w = Some ?h"
    then have "?h \<in> set (map tid (auto_timers w))" using assms(1) by (simp add: timers_ok_def)
    then show False using fresh by (auto simp: auto_timers_def)
  qed
  have gone: "g \<notin> tid ` set (timers w')" if g: "autoPlayTimer w = Some g" for g
  proof
    assume "g \<in> tid ` set (timers w')"
    then obtain t where t: "t \<in> set (timers w')" "tid t = g" by auto
    have gu: "autoPlayTimer u = Some g" using g e(3) by simp
    have "t \<noteq> ?n" using t(2) h_new g by auto
    then have "t \<in> set (timers u)" "task t \<noteq> AutoAdvance" using t(1) tab by auto
    then show False using auto_timer_by_handle [OF ok gu] t(2) by simp
  qed
  have autos: "auto_timers w' = [?n]" unfolding auto_timers_def tab by simp
  have fire: "dispatch (TimerFire ?h) (after (dispatch (Elapse d) w'))
                = Inr (after (dispatch (Elapse d) w'))" if d: "int d < AUTO_PLAY_INTERVAL" for d
  proof -
    have "find (\<lambda>t. tid t = ?h) (timers w') = Some ?n"
      unfolding tab using below by (intro find_fresh_timer) auto
    moreover have "now w' = now w" using u(2) e(6) by (simp add: resetAutoPlay_frame)
    ultimately show ?thesis using d by (simp add: fireTimer_def)
  qed
  show ?thesis using hd h_new fresh gone autos fire by blast
qed

theorem navigate_resets_autoplay_witness:
  "timers_ok settled2
   \<and> navigateTo 0 settled2 = Inr (after (navigateTo 0 settled2))
   \<and> currentIndex (after (navigateTo 0 settled2)) \<noteq> currentIndex settled2
   \<and> now settled2 = 1300 \<and> autoPlayTimer settled2 = Some 4
   \<and> auto_timers settled2 = [\<lparr>tid = 4, task = AutoAdvance, due = 6000, every = Some 5000\<rparr>]
   \<and> (\<exists>h. autoPlayTimer (after (navigateTo 0 settled2)) = Some h \<and> h \<noteq> 4
          \<and> auto_timers (after (navigateTo 0 settled2))
              = [\<lparr>tid = h, task = AutoAdvance, due = 6300, every = Some 5000\<rparr>])"
proof -
  have h1: "timers_ok settled2" by code_simp
  have m: "mounted settled2" "1 \<le> totalCards settled2" "\<not> isTransitioning settled2"
    by code_simp+
  from navigateTo_mounted [OF m, of 0]
  obtain u where "navigateTo 0 settled2 = Inr u" by auto
  then have h2: "navigateTo 0 settled2 = Inr (after (navigateTo 0 settled2))" by simp
  have h3: "currentIndex (after (navigateTo 0 settled2)) \<noteq> currentIndex settled2" by code_simp
  have c: "now settled2 = 1300" "autoPlayTimer settled2 = Some 4"
    "auto_timers settled2 = [\<lparr>tid = 4, task = AutoAdvance, due = 6000, every = Some 5000\<rparr>]"
    by code_simp+
  from navigate_resets_autoplay [OF h1 h2 h3] c(1,2)
  have "\<exists>h. autoPlayTimer (after (navigateTo 0 settled2)) = Some h \<and> h \<noteq> 4
          \<and> auto_timers (after (navigateTo 0 settled2))
              = [\<lparr>tid = h, task = AutoAdvance, due = 6300, every = Some 5000\<rparr>]"
    by (auto simp: AUTO_PLAY_INTERVAL_def)
  then show ?thesis using h1 h2 h3 c by blast
qed

subsection \<open>The carousel stays in working order\<close>

lemma mark_card_twice [simp]: "mark_card i k (mark_card j k c) = mark_card i k c"
  by simp

lemma mark_cards_twice [simp]: "mark_cards i k (mark_cards j k cs) = mark_cards i k cs"
  by (induction cs arbitrary: k) simp_all

lemma rendered_cong:
  assumes "el_cards w' = el_cards w" "totalCards w' = totalCards w" "cards w' = cards w"
    "indicators w' = indicators w" "prevButton w' = prevButton w" "nextButton w' = nextButton w"
    "liveRegion w' = liveRegion w" "currentIndex w' = currentIndex w"
  shows "rendered w' = rendered w"
  using assms by (simp add: rendered_def mounted_def)

lemma healthy_updateCarousel:
  assumes "healthy w" "0 \<le> i" "i < totalCards w"
  shows "\<exists>u. updateCarousel i a w = Inr u \<and> healthy u \<and> currentIndex u = i
           \<and> totalCards u = totalCards w"
proof -
  have m: "mounted w" "2 \<le> totalCards w" using assms(1) by (simp_all add: healthy_def rendered_def)
  from updateCarousel_mounted [OF m(1) assms(2,3), of a]
  obtain u where u: "updateCarousel i a w = Inr u" "currentIndex u = i"
    "cards u = mark_cards i 0 (cards w)" "totalCards u = totalCards w" "mounted u"
    "isAutoPlaying u = isAutoPlaying w" by blast
  have "rendered u" using u m(2) assms(2,3) by (simp add: rendered_def)
  moreover have "timers_ok u" using assms(1) u(1) by (auto simp: healthy_def intro: timers_ok_updateCarousel)
  ultimately show ?thesis using u assms(1) by (simp add: healthy_def)
qed

lemma rendered_autoplay [simp]:
  "rendered (pauseAutoPlay w) = rendered w"
  "rendered (resumeAutoPlay w) = rendered w"
  "rendered (resetAutoPlay w) = rendered w"
  by (rule rendered_cong;
      simp add: resetAutoPlay_def resumeAutoPlay_def pauseAutoPlay_def clearTimer_def
        setInterval_def Let_def split: option.splits)+

lemma flag_pause [simp]: "isAutoPlaying (pauseAutoPlay w) = isAutoPlaying w"
  by (simp add: pauseAutoPlay_def clearTimer_def split: option.splits)

lemma flag_resume [simp]: "isAutoPlaying (resumeAutoPlay w) = isAutoPlaying w"
  by (simp add: resumeAutoPlay_def setInterval_def split: option.splits)

lemma healthy_autoplay:
  assumes "healthy w"
  shows "healthy (pauseAutoPlay w)" "healthy (resumeAutoPlay w)" "healthy (resetAutoPlay w)"
  using assms
  by (simp_all add: healthy_def timers_ok_pauseAutoPlay timers_ok_resumeAutoPlay
        timers_ok_resetAutoPlay resetAutoPlay_def)

lemma healthy_navigateTo:
  assumes "healthy w"
  shows "\<exists>w'. navigateTo i w = Inr w' \<and> healthy w'"
proof -
  define k where "k = (if i < 0 then totalCards w - 1 else if i \<ge> totalCards w then 0 else i)"
  have "2 \<le> totalCards w" using assms by (simp add: healthy_def rendered_def)
  then have k: "0 \<le> k" "k < totalCards w" by (auto simp: k_def)
  show ?thesis
  proof (cases "isTransitioning w \<or> k = currentIndex w")
    case True
    then have "navigateTo i w = Inr w"
      by (cases "isTransitioning w") (simp_all add: navigateTo_def k_def [symmetric] Let_def)
    then show ?thesis using assms by simp
  next
    case False
    from healthy_updateCarousel [OF assms k, of True]
    obtain u where u: "updateCarousel k True w = Inr u" "healthy u" by blast
    have "navigateTo i w = Inr (resetAutoPlay u)"
      using False u(1) by (simp add: navigateTo_def k_def [symmetric] Let_def)
    then show ?thesis using u(2) by (simp add: healthy_autoplay)
  qed
qed


lemma healthy_write [simp]:
  "healthy (w\<lparr>lastKeyPressTime := a\<rparr>) = healthy w"
  "healthy (w\<lparr>touchStartX := x\<rparr>) = healthy w"
  "healthy (w\<lparr>touchStartY := y\<rparr>) = healthy w"
  "healthy (w\<lparr>touchStartTime := b\<rparr>) = healthy w"
  "healthy (w\<lparr>isTransitioning := c\<rparr>) = healthy w"
  "healthy (w\<lparr>now := d\<rparr>) = healthy w"
  by (simp_all add: healthy_def rendered_def mounted_def timers_ok_def auto_timers_def
        split: option.splits)

lemma healthy_andThen:
  assumes "\<exists>u. r = Inr u \<and> healthy u" "\<And>u. healthy u \<Longrightarrow> \<exists>v. f u = Inr v \<and> healthy v"
  shows "\<exists>v. andThen r f = Inr v \<and> healthy v"
  using assms by auto

lemma healthy_handleKeyDown:
  assumes "healthy w"
  shows "\<exists>w'. handleKeyDown key w = Inr w' \<and> healthy w'"
proof -
  have "\<exists>v. andThen (navigateTo k w) (\<lambda>w'. Inr (w'\<lparr>lastKeyPressTime := t\<rparr>)) = Inr v \<and> healthy v"
    for k t
    by (rule healthy_andThen [OF healthy_navigateTo [OF assms]]) simp
  then show ?thesis using assms by (simp add: handleKeyDown_def Let_def)
qed

lemma healthy_handleTouchEnd:
  assumes "healthy w"
  shows "\<exists>w'. handleTouchEnd t w = Inr w' \<and> healthy w'"
proof -
  have "\<exists>v. andThen (navigateTo k w)
          (\<lambda>w'. Inr (w'\<lparr>touchStartX := 0, touchStartY := 0, touchStartTime := 0\<rparr>)) = Inr v
          \<and> healthy v" for k
    by (rule healthy_andThen [OF healthy_navigateTo [OF assms]]) simp
  then show ?thesis using assms by (simp add: handleTouchEnd_def Let_def)
qed

lemma healthy_handleIndicatorClick:
  "healthy w \<Longrightarrow> \<exists>w'. handleIndicatorClick hit w = Inr w' \<and> healthy w'"
  by (simp add: handleIndicatorClick_def healthy_navigateTo split: option.splits)

lemma timers_ok_iff:
  "timers_ok w \<longleftrightarrow>
     0 < nextTimerId w
     \<and> (\<forall>t \<in> set (timers w). 0 < tid t \<and> tid t < nextTimerId w)
     \<and> distinct (map tid (timers w))
     \<and> (\<forall>t \<in> set (timers w). task t = AutoAdvance \<longleftrightarrow> every t \<noteq> None)
     \<and> (autoPlayTimer w \<noteq> None \<longrightarrow> isAutoPlaying w)
     \<and> map tid (auto_timers w) = (case autoPlayTimer w of None \<Rightarrow> [] | Some h \<Rightarrow> [h])
     \<and> (\<forall>h. resizeTimer w = Some h \<longrightarrow>
            h < nextTimerId w \<and> (\<forall>t \<in> set (timers w). tid t = h \<longrightarrow> task t = ResizeResync))"
  by (simp add: timers_ok_def split: option.splits)

lemma timers_ok_clear:
  assumes "timers_ok w" "\<forall>t \<in> set (timers w). tid t = i \<longrightarrow> task t \<noteq> AutoAdvance"
  shows "timers_ok (clearTimer (Some i) w)"
proof -
  have "filter (\<lambda>t. tid t \<noteq> i) (auto_timers w) = auto_timers w"
    unfolding filter_id_conv using assms(2) by (auto simp: auto_timers_def)
  then have a: "auto_timers (clearTimer (Some i) w) = auto_timers w"
    by (simp add: auto_timers_clear)
  have t: "timers (clearTimer (Some i) w) = filter (\<lambda>t. tid t \<noteq> i) (timers w)"
    and o: "nextTimerId (clearTimer (Some i) w) = nextTimerId w"
      "autoPlayTimer (clearTimer (Some i) w) = autoPlayTimer w"
      "isAutoPlaying (clearTimer (Some i) w) = isAutoPlaying w"
      "resizeTimer (clearTimer (Some i) w) = resizeTimer w"
    by (simp_all add: clearTimer_def)
  show ?thesis
    using assms(1) unfolding timers_ok_iff [of "clearTimer (Some i) w"] a t o
    by (simp add: timers_ok_iff distinct_map_filter)
qed


lemma rendered_table [simp]:
  "rendered (clearTimer h w) = rendered w"
  "rendered (snd (setTimeout f ms w)) = rendered w"
  "rendered (reschedule i ms w) = rendered w"
  "rendered (w\<lparr>resizeTimer := r\<rparr>) = rendered w"
  by (rule rendered_cong;
      simp add: clearTimer_def setTimeout_def reschedule_def split: option.splits)+

lemma flag_table [simp]:
  "isAutoPlaying (clearTimer h w) = isAutoPlaying w"
  "isAutoPlaying (snd (setTimeout f ms w)) = isAutoPlaying w"
  "isAutoPlaying (reschedule i ms w) = isAutoPlaying w"
  by (simp_all add: clearTimer_def setTimeout_def reschedule_def split: option.splits)

lemma timers_ok_clear_resize:
  assumes "timers_ok w"
  shows "timers_ok (clearTimer (resizeTimer w) w)"
proof (cases "resizeTimer w")
  case None
  then show ?thesis using assms by (simp add: clearTimer_def)
next
  case (Some h)
  then have "\<forall>t \<in> set (timers w). tid t = h \<longrightarrow> task t \<noteq> AutoAdvance"
    using assms by (auto simp: timers_ok_iff)
  then show ?thesis using Some assms by (simp add: timers_ok_clear)
qed

lemma timers_ok_resize_timeout:
  assumes "timers_ok w"
  shows "timers_ok ((snd (setTimeout ResizeResync ms w))\<lparr>resizeTimer := Some (nextTimerId w)\<rparr>)"
proof -
  let ?v = "(snd (setTimeout ResizeResync ms w))\<lparr>resizeTimer := Some (nextTimerId w)\<rparr>"
  have f: "timers ?v = timers w @ [\<lparr>tid = nextTimerId w, task = ResizeResync, due = now w + ms, every = None\<rparr>]"
    "nextTimerId ?v = nextTimerId w + 1" "autoPlayTimer ?v = autoPlayTimer w"
    "isAutoPlaying ?v = isAutoPlaying w" "resizeTimer ?v = Some (nextTimerId w)"
    "auto_timers ?v = auto_timers w"
    by (simp_all add: setTimeout_def auto_timers_def)
  have "\<forall>t \<in> set (timers w). tid t \<noteq> nextTimerId w" using assms by (auto simp: timers_ok_iff)
  then show ?thesis
    using assms unfolding timers_ok_iff [of ?v] f
    by (auto simp: timers_ok_iff)
qed


lemma healthy_handleResize:
  assumes "healthy w"
  shows "healthy (handleResize w)"
proof -
  let ?c = "clearTimer (resizeTimer w) w"
  have e: "handleResize w = (snd (setTimeout ResizeResync 150 ?c))\<lparr>resizeTimer := Some (nextTimerId ?c)\<rparr>"
    by (simp add: handleResize_def setTimeout_def)
  have "timers_ok ?c" using assms by (simp add: healthy_def timers_ok_clear_resize)
  then have "timers_ok (handleResize w)" unfolding e by (rule timers_ok_resize_timeout)
  moreover have "rendered (handleResize w) = rendered w" unfolding e by simp
  moreover have "isAutoPlaying (handleResize w) = isAutoPlaying w"
    unfolding e by (simp add: setTimeout_def clearTimer_def split: option.splits)
  ultimately show ?thesis using assms by (simp add: healthy_def)
qed

lemma healthy_deliver:
  assumes "healthy w"
  shows "\<exists>w'. deliver e w = Inr w' \<and> healthy w'"
proof (cases e)
  case PrevClick
  then show ?thesis using assms by (simp add: handlePrevClick_def healthy_navigateTo)
next
  case NextClick
  then show ?thesis using assms by (simp add: handleNextClick_def healthy_navigateTo)
next
  case (IndicatorClick hit)
  then show ?thesis using assms by (simp add: healthy_handleIndicatorClick)
next
  case (KeyDown key)
  then show ?thesis using assms by (simp add: healthy_handleKeyDown)
next
  case (TouchStart ts)
  then show ?thesis using assms by (simp add: handleTouchStart_def)
next
  case (TouchMove ts)
  then show ?thesis using assms by simp
next
  case (TouchEnd t)
  then show ?thesis using assms by (simp add: healthy_handleTouchEnd)
next
  case MouseEnter
  then show ?thesis using assms by (simp add: healthy_autoplay)
next
  case MouseLeave
  then show ?thesis using assms by (simp add: healthy_autoplay)
next
  case FocusIn
  then show ?thesis using assms by (simp add: healthy_autoplay)
next
  case FocusOut
  then show ?thesis using assms by (simp add: healthy_autoplay)
next
  case (VisibilityChange hidden)
  then show ?thesis using assms by (simp add: handleVisibilityChange_def healthy_autoplay)
next
  case Resize
  then show ?thesis using assms by (simp add: healthy_handleResize)
qed

lemma healthy_reschedule:
  assumes "healthy w"
  shows "healthy (reschedule i ms w)"
proof -
  let ?g = "\<lambda>u. if tid u = i then u\<lparr>due := now w + ms\<rparr> else u"
  have t: "timers (reschedule i ms w) = map ?g (timers w)"
    and o: "nextTimerId (reschedule i ms w) = nextTimerId w"
      "autoPlayTimer (reschedule i ms w) = autoPlayTimer w"
      "isAutoPlaying (reschedule i ms w) = isAutoPlaying w"
      "resizeTimer (reschedule i ms w) = resizeTimer w"
    by (simp_all add: reschedule_def)
  have g: "tid (?g u) = tid u" "task (?g u) = task u" "every (?g u) = every u" for u
    by simp_all
  have m: "map tid (map ?g ts) = map tid ts" for ts by (induction ts) simp_all
  have a: "map tid (filter (\<lambda>t. task t = AutoAdvance) (map ?g ts))
             = map tid (filter (\<lambda>t. task t = AutoAdvance) ts)" for ts
    by (induction ts) simp_all
  have "timers_ok (reschedule i ms w)"
    using assms unfolding timers_ok_iff [of "reschedule i ms w"] t o auto_timers_def a m
    by (auto simp: healthy_def timers_ok_iff auto_timers_def)
  then show ?thesis using assms by (simp add: healthy_def)
qed


lemma healthy_clear_timeout:
  assumes "healthy w" "t \<in> set (timers w)" "every t = None"
  shows "healthy (clearTimer (Some (tid t)) w)"
proof -
  have ok: "timers_ok w" using assms(1) by (simp add: healthy_def)
  have d: "distinct (map tid (timers w))" using ok by (simp add: timers_ok_iff)
  have "task u \<noteq> AutoAdvance" if "u \<in> set (timers w)" "tid u = tid t" for u
  proof -
    have "u = t" using distinct_map_eq [OF d that(1) assms(2) that(2)] .
    then show ?thesis using ok assms(2,3) by (auto simp: timers_ok_iff)
  qed
  then have "timers_ok (clearTimer (Some (tid t)) w)" using ok by (intro timers_ok_clear) auto
  then show ?thesis using assms(1) by (simp add: healthy_def)
qed

lemma healthy_runTask:
  assumes "healthy w"
  shows "\<exists>w'. runTask f w = Inr w' \<and> healthy w'"
proof (cases f)
  case AutoAdvance
  then show ?thesis using assms by (simp add: healthy_navigateTo)
next
  case EndTransition
  then show ?thesis using assms by simp
next
  case ResizeResync
  have "0 \<le> currentIndex w" "currentIndex w < totalCards w"
    using assms by (simp_all add: healthy_def rendered_def)
  from healthy_updateCarousel [OF assms this, of False]
  show ?thesis using ResizeResync by auto
qed

lemma healthy_fireTimer:
  assumes "healthy w"
  shows "\<exists>w'. fireTimer i w = Inr w' \<and> healthy w'"
proof (cases "find (\<lambda>t. tid t = i) (timers w)")
  case None
  then show ?thesis using assms by (simp add: fireTimer_def)
next
  case (Some t)
  then have t: "t \<in> set (timers w)" "tid t = i"
    by (auto simp: find_Some_iff in_set_conv_nth)
  show ?thesis
  proof (cases "now w < due t")
    case True
    then show ?thesis using Some assms by (simp add: fireTimer_def)
  next
    case False
    show ?thesis
    proof (cases "every t")
      case None
      have "healthy (clearTimer (Some i) w)"
        using healthy_clear_timeout [OF assms t(1) None] t(2) by simp
      from healthy_runTask [OF this, of "task t"]
      show ?thesis using Some False None by (simp add: fireTimer_def)
    next
      case (Some ms)
      from healthy_runTask [OF assms, of "task t"]
      obtain w' where "runTask (task t) w = Inr w'" "healthy w'" by blast
      then show ?thesis
        using \<open>find (\<lambda>t. tid t = i) (timers w) = Some t\<close> False Some
        by (simp add: fireTimer_def healthy_reschedule)
    qed
  qed
qed

lemma healthy_dispatch:
  assumes "healthy w"
  shows "\<exists>w'. dispatch e w = Inr w' \<and> healthy w'"
  using assms by (cases e) (simp_all add: healthy_deliver healthy_fireTimer)

lemma activate_builds:
  assumes "el_container w" "el_grid w" "has_inner w"
  shows "\<exists>c. andThen (andThen (andThen (createCarouselControls w) createIndicators)
                createLiveRegion) attachEventListeners = Inr c
           \<and> indicators c \<noteq> None \<and> prevButton c \<noteq> None \<and> nextButton c \<noteq> None
           \<and> liveRegion c \<noteq> None \<and> listening c
           \<and> el_cards c = el_cards w \<and> totalCards c = totalCards w \<and> cards c = cards w
           \<and> timers c = timers w \<and> nextTimerId c = nextTimerId w
           \<and> autoPlayTimer c = autoPlayTimer w \<and> isAutoPlaying c = isAutoPlaying w
           \<and> resizeTimer c = resizeTimer w"
  using assms
  by (auto simp: createCarouselControls_def injectCarouselStyles_def createIndicators_def
        createLiveRegion_def attachEventListeners_def Let_def)

lemma healthy_startAutoPlay:
  assumes "rendered w" "timers_ok w" "\<not> isAutoPlaying w"
  shows "healthy (startAutoPlay w)"
proof -
  let ?s = "startAutoPlay w"
  have n: "autoPlayTimer w = None" using assms(2,3) by (auto simp: timers_ok_iff)
  then have a: "auto_timers w = []" using assms(2) by (simp add: timers_ok_iff)
  have f: "timers ?s = timers w @ [\<lparr>tid = nextTimerId w, task = AutoAdvance,
                                     due = now w + AUTO_PLAY_INTERVAL,
                                     every = Some AUTO_PLAY_INTERVAL\<rparr>]"
    "nextTimerId ?s = nextTimerId w + 1" "autoPlayTimer ?s = Some (nextTimerId w)"
    "isAutoPlaying ?s" "resizeTimer ?s = resizeTimer w"
    using assms(3) by (simp_all add: startAutoPlay_def setInterval_def)
  have au: "auto_timers ?s = auto_timers w @ [\<lparr>tid = nextTimerId w, task = AutoAdvance,
                                     due = now w + AUTO_PLAY_INTERVAL,
                                     every = Some AUTO_PLAY_INTERVAL\<rparr>]"
    unfolding auto_timers_def f by simp
  have "\<forall>t \<in> set (timers w). tid t \<noteq> nextTimerId w" using assms(2) by (auto simp: timers_ok_iff)
  then have "timers_ok ?s"
    using assms(2) f(4) unfolding timers_ok_iff [of ?s] au a f(1,2,3,5)
    by (auto simp: timers_ok_iff)
  moreover have "rendered ?s = rendered w"
    using assms(3) by (intro rendered_cong) (simp_all add: startAutoPlay_def setInterval_def)
  ultimately show ?thesis using assms(1) f(4) by (simp add: healthy_def)
qed

lemma healthy_activate:
  assumes "el_container w" "el_grid w" "has_inner w" "el_cards w"
    "totalCards w = int (length (cards w))" "2 \<le> totalCards w"
    "timers_ok w" "\<not> isAutoPlaying w"
  shows "\<exists>w'. activate w = Inr w' \<and> healthy w'"
proof -
  from activate_builds [OF assms(1-3)]
  obtain c where c: "andThen (andThen (andThen (createCarouselControls w) createIndicators)
                createLiveRegion) attachEventListeners = Inr c"
    "indicators c \<noteq> None" "prevButton c \<noteq> None" "nextButton c \<noteq> None"
    "liveRegion c \<noteq> None"
    "el_cards c = el_cards w" "totalCards c = totalCards w" "cards c = cards w"
    "timers c = timers w" "nextTimerId c = nextTimerId w"
    "autoPlayTimer c = autoPlayTimer w" "isAutoPlaying c = isAutoPlaying w"
    "resizeTimer c = resizeTimer w"
    by blast
  have m: "mounted c" using c assms(4,5) by (simp add: mounted_def)
  have ok: "timers_ok c" using assms(7) c timers_ok_cong [of c w] by simp
  have n: "0 \<le> (0::int)" "0 < totalCards c" using c(7) assms(6) by simp_all
  from updateCarousel_mounted [OF m n, of False]
  obtain u where u: "updateCarousel 0 False c = Inr u" "currentIndex u = 0"
    "cards u = mark_cards 0 0 (cards c)" "totalCards u = totalCards c" "mounted u"
    "isAutoPlaying u = isAutoPlaying c" by blast
  have "rendered u" using u c(7) assms(6) by (simp add: rendered_def)
  moreover have "timers_ok u" by (rule timers_ok_updateCarousel [OF ok u(1)])
  moreover have "\<not> isAutoPlaying u" using u(6) c(12) assms(8) by simp
  ultimately have h: "healthy (startAutoPlay u)" by (rule healthy_startAutoPlay)
  have "healthy ((startAutoPlay u)\<lparr>console := x\<rparr>)" for x
    using h by (simp add: healthy_def rendered_def mounted_def timers_ok_iff auto_timers_def)
  then show ?thesis using c(1) u(1) by (simp add: activate_def)
qed

lemma healthy_init:
  assumes "fresh w0" "has_testimonials w0" "has_grid w0" "has_inner w0" "2 \<le> length (cards w0)"
  shows "healthy (init w0)"
proof -
  let ?w = "w0\<lparr>el_container := True, el_grid := True, el_cards := True,
                 totalCards := int (length (cards w0))\<rparr>"
  have "timers_ok ?w" using assms(1) by (simp add: fresh_def timers_ok_iff auto_timers_def)
  moreover have "\<not> isAutoPlaying ?w" using assms(1) by (simp add: fresh_def)
  ultimately obtain w' where w': "activate ?w = Inr w'" "healthy w'"
    using healthy_activate [of ?w] assms(4,5) by auto
  have "init w0 = w'" using assms(2,3,5) w'(1) by (simp add: init_def Let_def)
  then show ?thesis using w'(2) by simp
qed

lemma reaches_healthy:
  assumes "fresh w0" "has_testimonials w0" "has_grid w0" "has_inner w0" "2 \<le> length (cards w0)"
    and "reaches w0 w"
  shows "healthy w"
  using assms(6)
proof (induction rule: reaches.induct)
  case reaches_init
  show ?case by (rule healthy_init [OF assms(1-5)])
next
  case (reaches_step w e)
  from healthy_dispatch [OF reaches_step.IH, of e]
  show ?case by auto
qed

text \<open>On any other page \<open>init\<close> leaves no listener and no timer behind, so the timer
  table is in order in every world reachable from a freshly loaded page.\<close>

lemma init_unmounted:
  assumes "fresh w0"
    and "\<not> (has_testimonials w0 \<and> has_grid w0 \<and> has_inner w0 \<and> 2 \<le> length (cards w0))"
  shows "\<not> listening (init w0) \<and> timers (init w0) = [] \<and> autoPlayTimer (init w0) = None
         \<and> resizeTimer (init w0) = None \<and> nextTimerId (init w0) = nextTimerId w0
         \<and> \<not> isAutoPlaying (init w0)"
  using assms
  by (auto simp: init_def activate_def createCarouselControls_def fresh_def Let_def)

lemma dispatch_unmounted:
  assumes "\<not> listening w" "timers w = []"
  shows "dispatch e w = Inr (case e of Elapse d \<Rightarrow> w\<lparr>now := now w + int d\<rparr> | _ \<Rightarrow> w)"
  using assms by (cases e) (simp_all add: fireTimer_def)

lemma reaches_unmounted:
  assumes "fresh w0"
    and "\<not> (has_testimonials w0 \<and> has_grid w0 \<and> has_inner w0 \<and> 2 \<le> length (cards w0))"
    and "reaches w0 w"
  shows "\<not> listening w \<and> timers w = [] \<and> autoPlayTimer w = None
         \<and> resizeTimer w = None \<and> nextTimerId w = nextTimerId w0 \<and> \<not> isAutoPlaying w"
  using assms(3)
proof (induction rule: reaches.induct)
  case reaches_init
  show ?case by (rule init_unmounted [OF assms(1,2)])
next
  case (reaches_step w e)
  then have "dispatch e w = Inr (case e of Elapse d \<Rightarrow> w\<lparr>now := now w + int d\<rparr> | _ \<Rightarrow> w)"
    by (intro dispatch_unmounted) simp_all
  then show ?case using reaches_step.IH by (cases e) simp_all
qed

lemma reaches_timers_ok:
  assumes "fresh w0" "reaches w0 w"
  shows "timers_ok w"
proof (cases "has_testimonials w0 \<and> has_grid w0 \<and> has_inner w0 \<and> 2 \<le> length (cards w0)")
  case True
  then have "healthy w" using reaches_healthy [OF assms(1) _ _ _ _ assms(2)] by simp
  then show ?thesis by (simp add: healthy_def)
next
  case False
  from reaches_unmounted [OF assms(1) False assms(2)] assms(1)
  show ?thesis by (simp add: timers_ok_iff auto_timers_def fresh_def)
qed

subsection \<open>One active card\<close>

lemma nth_mark_cards:
  "j < length cs \<Longrightarrow> mark_cards i k cs ! j = mark_card i (k + int j) (cs ! j)"
proof (induction cs arbitrary: k j)
  case Nil
  then show ?case by simp
next
  case (Cons c cs)
  show ?case
  proof (cases j)
    case 0
    then show ?thesis by simp
  next
    case (Suc m)
    then have "m < length cs" using Cons.prems by simp
    from Cons.IH [OF this, of "k + 1"] show ?thesis using Suc by (simp add: algebra_simps)
  qed
qed

lemma is_active_mark_card [simp]: "is_active (mark_card i k c) \<longleftrightarrow> k = i"
  by (simp add: is_active_def)

lemma is_hidden_mark_card [simp]: "is_hidden (mark_card i k c) \<longleftrightarrow> k \<noteq> i"
  by (simp add: is_hidden_def)

lemma cls_active_mark_card [simp]: "cls_active (mark_card i k c) \<longleftrightarrow> k = i"
  by simp

declare mark_card.simps [simp del]

lemma count_active_mark_cards:
  "length (filter is_active (mark_cards i k cs))
     = (if k \<le> i \<and> i < k + int (length cs) then 1 else 0)"
proof (induction cs arbitrary: k)
  case Nil
  then show ?case by simp
next
  case (Cons c cs)
  show ?case using Cons.IH [of "k + 1"] by (cases "k = i") auto
qed

lemma count_class_mark_cards:
  "length (filter cls_active (mark_cards i k cs))
     = (if k \<le> i \<and> i < k + int (length cs) then 1 else 0)"
proof (induction cs arbitrary: k)
  case Nil
  then show ?case by simp
next
  case (Cons c cs)
  show ?case using Cons.IH [of "k + 1"] by (cases "k = i") auto
qed

lemma reaches_run: "reaches w0 w \<Longrightarrow> reaches w0 (run es w)"
  by (induction es arbitrary: w) (auto intro: reaches_step)

text \<open>
  Claim C4, as amended. The claim speaks of every settled state reachable from
  initialisation with \<open>N \<ge> 2\<close> cards. \<open>init\<close> mounts the carousel only if the page also
  has the \<open>.testimonials__container\<close> element; what holds is: in every world reachable
  from \<open>init\<close> on a page with the container, the grid, that inner container and \<open>N \<ge> 2\<close>
  cards (settled or in transition), \<open>currentIndex\<close> lies in \<open>[0, N)\<close> and exactly one card
  carries the active marker (the active class, no \<open>aria-hidden\<close>, \<open>tabindex\<close> 0): the card
  at \<open>currentIndex\<close>; every other card is marked hidden. Every event is handled without an
  uncaught error, and the world it leads to is again reachable, so every operation
  preserves this.
\<close>

theorem one_active_card:
  assumes "fresh w0" "has_testimonials w0" "has_grid w0" "has_inner w0" "2 \<le> length (cards w0)"
    and "reaches w0 w"
  shows "0 \<le> currentIndex w \<and> currentIndex w < int (length (cards w))
         \<and> length (filter is_active (cards w)) = 1
         \<and> length (filter cls_active (cards w)) = 1
         \<and> (\<forall>j < length (cards w).
               if int j = currentIndex w then is_active (cards w ! j)
               else is_hidden (cards w ! j))
         \<and> (\<forall>e. \<exists>w'. dispatch e w = Inr w')"
proof -
  have h: "healthy w" by (rule reaches_healthy [OF assms])
  then have r: "totalCards w = int (length (cards w))" "0 \<le> currentIndex w"
    "currentIndex w < totalCards w" "cards w = mark_cards (currentIndex w) 0 (cards w)"
    by (simp_all add: healthy_def rendered_def mounted_def)
  have "length (filter is_active (mark_cards (currentIndex w) 0 (cards w))) = 1"
    "length (filter cls_active (mark_cards (currentIndex w) 0 (cards w))) = 1"
    using r(1-3) by (simp_all add: count_active_mark_cards count_class_mark_cards)
  then have one: "length (filter is_active (cards w)) = 1" "length (filter cls_active (cards w)) = 1"
    using r(4) by simp_all
  have each: "if int j = currentIndex w then is_active (cards w ! j) else is_hidden (cards w ! j)"
    if "j < length (cards w)" for j
  proof -
    have "cards w ! j = mark_card (currentIndex w) (int j) (cards w ! j)"
      using nth_mark_cards [OF that, of "currentIndex w" 0] r(4) by simp
    then have "is_active (cards w ! j) = (int j = currentIndex w)"
      "is_hidden (cards w ! j) = (int j \<noteq> currentIndex w)"
      by (metis is_active_mark_card, metis is_hidden_mark_card)
    then show ?thesis by simp
  qed
  have "\<exists>w'. dispatch e w = Inr w'" for e using healthy_dispatch [OF h, of e] by blast
  then show ?thesis using r(1-3) one each by simp
qed

theorem one_active_card_witness:
  "fresh page3 \<and> has_testimonials page3 \<and> has_grid page3 \<and> has_inner page3
   \<and> 2 \<le> length (cards page3) \<and> reaches page3 settled2
   \<and> currentIndex settled2 = 2 \<and> length (cards settled2) = 3
   \<and> length (filter is_active (cards settled2)) = 1
   \<and> is_hidden (cards settled2 ! 0) \<and> is_hidden (cards settled2 ! 1)
   \<and> is_active (cards settled2 ! 2)"
proof -
  have h: "fresh page3" "has_testimonials page3" "has_grid page3" "has_inner page3"
    "2 \<le> length (cards page3)"
    by (simp_all add: fresh_def page3_def)
  have r: "reaches page3 settled2"
    unfolding settled2_def started_def by (intro reaches_run reaches_init)
  have c: "currentIndex settled2 = 2" "length (cards settled2) = 3" by code_simp+
  from one_active_card [OF h r] c
  have one: "length (filter is_active (cards settled2)) = 1"
    and each: "\<And>j. j < 3 \<Longrightarrow>
      (if int j = 2 then is_active (cards settled2 ! j) else is_hidden (cards settled2 ! j))"
    by simp_all
  have "is_hidden (cards settled2 ! 0)" "is_hidden (cards settled2 ! 1)"
    "is_active (cards settled2 ! 2)"
    using each [of 0] each [of 1] each [of 2] by simp_all
  then show ?thesis using h r c one by simp
qed

text \<open>
  The counterexample to C4 as stated: on the three-card page without the inner container,
  \<open>createCarouselControls\<close> throws, \<open>init\<close> catches and logs the error, and the world it
  returns, which is settled, has the cards as the markup had them: none carries the active
  marker.
\<close>

theorem one_active_card_counterexample:
  "fresh bare_page \<and> has_testimonials bare_page \<and> has_grid bare_page
   \<and> 2 \<le> length (cards bare_page) \<and> reaches bare_page (init bare_page)
   \<and> \<not> isTransitioning (init bare_page)
   \<and> cards (init bare_page) = [plain_card, plain_card, plain_card]
   \<and> filter is_active (cards (init bare_page)) = []
   \<and> length (filter is_active (cards (init bare_page))) \<noteq> 1
   \<and> console (init bare_page) = [LogError TypeError]"
proof -
  have r: "reaches bare_page (init bare_page)" by (rule reaches_init)
  have "fresh bare_page \<and> has_testimonials bare_page \<and> has_grid bare_page
   \<and> 2 \<le> length (cards bare_page)
   \<and> \<not> isTransitioning (init bare_page)
   \<and> cards (init bare_page) = [plain_card, plain_card, plain_card]
   \<and> filter is_active (cards (init bare_page)) = []
   \<and> length (filter is_active (cards (init bare_page))) \<noteq> 1
   \<and> console (init bare_page) = [LogError TypeError]"
    by code_simp
  then show ?thesis using r by blast
qed

subsection \<open>Which swipes navigate\<close>

lemma index_handleTouchEnd_transition:
  "isTransitioning w \<Longrightarrow> currentIndex (after (handleTouchEnd t w)) = currentIndex w"
  by (simp add: handleTouchEnd_def navigateTo_def Let_def)

text \<open>
  Claim C8, as amended. The claim states that every completed single-touch gesture
  navigates by one exactly when its angle, distance and duration pass the three tests.
  \<open>handleTouchEnd\<close> hands an accepted swipe to \<open>navigateTo\<close>, which drops it while a
  transition is in progress, so the claim holds for the carousel at rest: on the mounted
  carousel of \<open>N \<ge> 2\<close> cards with the index in range, no transition in progress and a
  non-zero stored \<open>touchStartX\<close>, \<open>handleTouchEnd\<close> returns normally and the index
  changes if and only if the three tests pass on the numbers the engine computes in double
  arithmetic: the angle \<open>Math.abs(Math.atan2(deltaY, deltaX) * 180 / Math.PI)\<close> is below
  \<open>TOUCH_ANGLE_THRESHOLD\<close> or above \<open>180 - TOUCH_ANGLE_THRESHOLD\<close>, the difference \<open>deltaX\<close>
  exceeds \<open>SWIPE_THRESHOLD\<close> in absolute value, and the elapsed time is under 500 ms. The
  index then moves by one, wrapping, backwards for a positive \<open>deltaX\<close> and forwards
  otherwise.
\<close>

theorem swipe_navigates_iff:
  assumes "mounted w" "2 \<le> totalCards w" "0 \<le> currentIndex w" "currentIndex w < totalCards w"
    and "\<not> isTransitioning w" "touchStartX w \<noteq> 0"
  shows "\<exists>w'. handleTouchEnd t w = Inr w'
           \<and> (currentIndex w' \<noteq> currentIndex w \<longleftrightarrow>
                (swipeAngle (engine w) (num_sub (engine w) (clientX t) (touchStartX w))
                     (num_sub (engine w) (clientY t) (touchStartY w)) < TOUCH_ANGLE_THRESHOLD
                 \<or> swipeAngle (engine w) (num_sub (engine w) (clientX t) (touchStartX w))
                     (num_sub (engine w) (clientY t) (touchStartY w))
                     > num_sub (engine w) 180 TOUCH_ANGLE_THRESHOLD)
                \<and> \<bar>num_sub (engine w) (clientX t) (touchStartX w)\<bar> > SWIPE_THRESHOLD
                \<and> now w - touchStartTime w < 500)
           \<and> (currentIndex w' \<noteq> currentIndex w \<longrightarrow>
                currentIndex w' =
                  (if num_sub (engine w) (clientX t) (touchStartX w) > 0
                   then (if currentIndex w = 0 then totalCards w - 1 else currentIndex w - 1)
                   else (if currentIndex w = totalCards w - 1 then 0 else currentIndex w + 1)))"
proof -
  let ?dx = "num_sub (engine w) (clientX t) (touchStartX w)"
  let ?dy = "num_sub (engine w) (clientY t) (touchStartY w)"
  let ?acc = "swipeAccepted (engine w) (swipeAngle (engine w) ?dx ?dy) ?dx
                (now w - touchStartTime w)"
  let ?reset = "\<lambda>w'. Inr (w'\<lparr>touchStartX := 0, touchStartY := 0, touchStartTime := 0\<rparr>) :: outcome"
  have nav: "\<exists>w'. andThen (navigateTo k w) ?reset = Inr w'
               \<and> currentIndex w' = (if k < 0 then totalCards w - 1
                                    else if k \<ge> totalCards w then 0 else k)" for k
  proof -
    from navigateTo_mounted [of w k] assms(1,2,5)
    obtain u where "navigateTo k w = Inr u"
      "currentIndex u = (if k < 0 then totalCards w - 1 else if k \<ge> totalCards w then 0 else k)"
      by auto
    then show ?thesis by simp
  qed
  show ?thesis
  proof (cases ?acc)
    case False
    then have "handleTouchEnd t w = ?reset w" using assms(6) by (simp add: handleTouchEnd_def Let_def)
    then show ?thesis using False by (simp add: swipeAccepted_def isHorizontalSwipe_def)
  next
    case True
    show ?thesis
    proof (cases "?dx > 0")
      case pos: True
      then have "handleTouchEnd t w = andThen (navigateTo (currentIndex w - 1) w) ?reset"
        using True assms(6) by (simp add: handleTouchEnd_def Let_def)
      with nav [of "currentIndex w - 1"] obtain w' where
        "handleTouchEnd t w = Inr w'"
        "currentIndex w' = (if currentIndex w - 1 < 0 then totalCards w - 1
                            else if currentIndex w - 1 \<ge> totalCards w then 0 else currentIndex w - 1)"
        by auto
      then show ?thesis using True pos assms(2,3,4)
        by (auto simp: swipeAccepted_def isHorizontalSwipe_def)
    next
      case neg: False
      then have "handleTouchEnd t w = andThen (navigateTo (currentIndex w + 1) w) ?reset"
        using True assms(6) by (simp add: handleTouchEnd_def Let_def)
      with nav [of "currentIndex w + 1"] obtain w' where
        "handleTouchEnd t w = Inr w'"
        "currentIndex w' = (if currentIndex w + 1 < 0 then totalCards w - 1
                            else if currentIndex w + 1 \<ge> totalCards w then 0 else currentIndex w + 1)"
        by auto
      then show ?thesis using True neg assms(2,3,4)
        by (auto simp: swipeAccepted_def isHorizontalSwipe_def)
    qed
  qed
qed

theorem swipe_navigates_iff_witness:
  "mounted swipe_start \<and> 2 \<le> totalCards swipe_start \<and> 0 \<le> currentIndex swipe_start
   \<and> currentIndex swipe_start < totalCards swipe_start \<and> \<not> isTransitioning swipe_start
   \<and> touchStartX swipe_start \<noteq> 0 \<and> currentIndex swipe_start = 2
   \<and> touchStartX swipe_start = 200
   \<and> now swipe_start - touchStartTime swipe_start = 200
   \<and> (\<exists>w'. handleTouchEnd \<lparr>clientX = 280, clientY = 100\<rparr> swipe_start = Inr w'
          \<and> currentIndex w' = 1)
   \<and> (\<exists>w'. handleTouchEnd \<lparr>clientX = 230, clientY = 100\<rparr> swipe_start = Inr w'
          \<and> currentIndex w' = 2)"
proof -
  have h: "mounted swipe_start" "2 \<le> totalCards swipe_start" "0 \<le> currentIndex swipe_start"
    "currentIndex swipe_start < totalCards swipe_start" "\<not> isTransitioning swipe_start"
    "touchStartX swipe_start \<noteq> 0"
    by code_simp+
  have c: "currentIndex swipe_start = 2" "totalCards swipe_start = 3"
    "touchStartX swipe_start = 200" "touchStartY swipe_start = 100"
    "now swipe_start - touchStartTime swipe_start = 200"
    by code_simp+
  note e = engine_samples(3) exact_level_swipe
  from swipe_navigates_iff [OF h, of "\<lparr>clientX = 280, clientY = 100\<rparr>"]
  have a: "\<exists>w'. handleTouchEnd \<lparr>clientX = 280, clientY = 100\<rparr> swipe_start = Inr w'
          \<and> currentIndex w' = 1"
    by (auto simp: c e SWIPE_THRESHOLD_def TOUCH_ANGLE_THRESHOLD_def)
  from swipe_navigates_iff [OF h, of "\<lparr>clientX = 230, clientY = 100\<rparr>"]
  have b: "\<exists>w'. handleTouchEnd \<lparr>clientX = 230, clientY = 100\<rparr> swipe_start = Inr w'
          \<and> currentIndex w' = 2"
    by (auto simp: c e SWIPE_THRESHOLD_def TOUCH_ANGLE_THRESHOLD_def)
  show ?thesis using h c(1,3,5) a b by blast
qed

text \<open>
  The counterexample to C8 as stated: a swipe of 80 px to the right in 200 ms, level, that
  ends 200 ms into the 300 ms transition started by a click on "next", passes the three
  tests and leaves the index where it was. So does a swipe of 80 px to the right on the
  carousel at rest when the finger went down at \<open>clientX = 0\<close>.
\<close>

theorem swipe_navigates_counterexample:
  "isTransitioning swipe_in_transition \<and> touchStartX swipe_in_transition = 200
   \<and> touchStartY swipe_in_transition = 100
   \<and> now swipe_in_transition - touchStartTime swipe_in_transition = 200
   \<and> swipeAccepted (engine swipe_in_transition)
        (swipeAngle (engine swipe_in_transition)
           (num_sub (engine swipe_in_transition) 280 200)
           (num_sub (engine swipe_in_transition) 100 100))
        (num_sub (engine swipe_in_transition) 280 200) 200
   \<and> currentIndex (after (handleTouchEnd \<lparr>clientX = 280, clientY = 100\<rparr> swipe_in_transition))
       = currentIndex swipe_in_transition
   \<and> \<not> isTransitioning swipe_from_edge \<and> touchStartX swipe_from_edge = 0
   \<and> touchStartY swipe_from_edge = 100
   \<and> now swipe_from_edge - touchStartTime swipe_from_edge = 200
   \<and> swipeAccepted (engine swipe_from_edge)
        (swipeAngle (engine swipe_from_edge)
           (num_sub (engine swipe_from_edge) 80 0)
           (num_sub (engine swipe_from_edge) 100 100))
        (num_sub (engine swipe_from_edge) 80 0) 200
   \<and> currentIndex (after (handleTouchEnd \<lparr>clientX = 80, clientY = 100\<rparr> swipe_from_edge))
       = currentIndex swipe_from_edge"
proof -
  have t: "isTransitioning swipe_in_transition" "touchStartX swipe_in_transition = 200"
    "touchStartY swipe_in_transition = 100"
    "now swipe_in_transition - touchStartTime swipe_in_transition = 200"
    by code_simp+
  have g: "\<not> isTransitioning swipe_from_edge" "touchStartX swipe_from_edge = 0"
    "touchStartY swipe_from_edge = 100"
    "now swipe_from_edge - touchStartTime swipe_from_edge = 200"
    by code_simp+
  have a: "swipeAccepted exact_arith
             (swipeAngle exact_arith (num_sub exact_arith 280 200) (num_sub exact_arith 100 100))
             (num_sub exact_arith 280 200) 200"
    "swipeAccepted exact_arith
             (swipeAngle exact_arith (num_sub exact_arith 80 0) (num_sub exact_arith 100 100))
             (num_sub exact_arith 80 0) 200"
    by (simp_all add: swipeAccepted_def exact_level_swipe SWIPE_THRESHOLD_def)
  have i: "currentIndex (after (handleTouchEnd \<lparr>clientX = 280, clientY = 100\<rparr> swipe_in_transition))
       = currentIndex swipe_in_transition"
    by (rule index_handleTouchEnd_transition [OF t(1)])
  have j: "currentIndex (after (handleTouchEnd \<lparr>clientX = 80, clientY = 100\<rparr> swipe_from_edge))
       = currentIndex swipe_from_edge"
    by (simp add: touchEnd_unrecorded [OF g(2)])
  show ?thesis using t g a i j by (simp add: engine_samples)
qed

end
